theory Spec2Isabelle
  imports Main "HOL-Library.Sublist"
begin

section \<open>Errors and Python values\<close>

text \<open>
  Every exception the three functions of \<^verbatim>\<open>scrape_boarddoc_meetings.py\<close> can raise is a
  value. \<open>ResponseError\<close> stands for a request that did not come back with a usable body
  (a transport failure of \<^verbatim>\<open>requests.post\<close>, or a body \<^verbatim>\<open>json.loads\<close> rejects); the other
  constructors are the Python exceptions of the same name.
\<close>

datatype error =
    ResponseError
  | KeyError
  | TypeError
  | ValueError
  | OverflowError
  | AttributeError
  | UnboundLocalError

text \<open>
  The values the agenda dictionary stores under \<^verbatim>\<open>name\<close>, \<^verbatim>\<open>date\<close> and \<^verbatim>\<open>description\<close>.
  BeautifulSoup's \<^verbatim>\<open>.string\<close> is \<^verbatim>\<open>None\<close> or a \<^verbatim>\<open>NavigableString\<close>; \<^verbatim>\<open>NavigableString\<close> is a
  subclass of \<^verbatim>\<open>str\<close>, so its \<^verbatim>\<open>type(...)\<close> is not \<^verbatim>\<open>str\<close> itself. A string literal of the
  program, such as \<^verbatim>\<open>""\<close>, is a \<open>PyStr\<close>.
\<close>

datatype pyval = PyNone | PyStr string | NavigableString string

text \<open>\<^verbatim>\<open>type(v) is str\<close>: identity of the class, which a subclass does not satisfy.\<close>

fun type_is_str :: "pyval \<Rightarrow> bool" where
  "type_is_str (PyStr s) = True"
| "type_is_str PyNone = False"
| "type_is_str (NavigableString s) = False"

section \<open>The parsed HTML document\<close>

text \<open>
  A document as \<^verbatim>\<open>BeautifulSoup(response.content, "html.parser")\<close> holds it: text nodes and
  tags with a name, attributes and contents. The attribute list stands for the dictionary
  \<^verbatim>\<open>tag.attrs\<close>, one entry for a key, with the values as written in the page; the tree
  builder splits the value of \<^verbatim>\<open>class\<close> at whitespace into a list, which \<open>class_list\<close> below
  computes. Comments and other special strings are left out.
\<close>

datatype node =
    Text string
  | Tag string "(string \<times> string) list" "node list"

section \<open>The environment: library conversions and the remote site\<close>

text \<open>
  One entry of the JSON array the meeting-list endpoint returns: the three keys the
  program reads with \<^verbatim>\<open>meeting.get(key, None)\<close>. \<open>None\<close> is a missing key or a JSON
  \<^verbatim>\<open>null\<close>; a present value is a string, as the feed sends them.
\<close>

record raw_meeting =
  unique :: "string option"
  raw_numberdate :: "string option"
  raw_name :: "string option"

text \<open>
  What the code calls and this repository does not define:
  \<^item> \<open>py_int\<close> is Python's \<^verbatim>\<open>int(s)\<close> on a string (it raises \<^verbatim>\<open>ValueError\<close> on a malformed one);
  \<^item> \<open>astype_int\<close> is the conversion \<^verbatim>\<open>Series.astype(int)\<close> applies to one string of an
    object column (it raises on a malformed string, and on one outside the machine range);
  \<^item> \<open>post_json url data\<close> is \<^verbatim>\<open>json.loads(requests.post(url, data=data).text)\<close>, and
    \<open>post_html url data\<close> is \<^verbatim>\<open>BeautifulSoup(requests.post(url, data=data).content, "html.parser")\<close>,
    the root of the parsed page; \<open>None\<close> is a request that raises.
\<close>

record env =
  py_int :: "string \<Rightarrow> error + int"
  astype_int :: "string \<Rightarrow> error + int"
  post_json :: "string \<Rightarrow> string \<Rightarrow> raw_meeting list option"
  post_html :: "string \<Rightarrow> string \<Rightarrow> node option"

text \<open>The requests issued so far, each as (url, body), oldest first.\<close>

type_synonym request = "string \<times> string"

section \<open>Meeting-list fetcher: \<^verbatim>\<open>get_boarddoc_meetings\<close>\<close>

text \<open>A row of the \<^verbatim>\<open>meetings\<close> data frame.\<close>

record meeting =
  meeting_id :: "string option"
  committee_id :: string
  numberdate :: "string option"
  name :: "string option"

text \<open>The optional \<^verbatim>\<open>date\<close> argument: \<^verbatim>\<open>None\<close>, or a pair whose sides are a \<^verbatim>\<open>str\<close>
  (\<open>Some\<close>) or anything else (\<open>None\<close>): the code only asks \<^verbatim>\<open>type(date[i]) is str\<close>.\<close>

type_synonym date_filter = "(string option \<times> string option) option"

text \<open>The list comprehension of lines 41 to 49.\<close>

definition project :: "string \<Rightarrow> raw_meeting \<Rightarrow> meeting" where
  "project cid r =
     \<lparr>meeting_id = unique r, committee_id = cid,
      numberdate = raw_numberdate r, name = raw_name r\<rparr>"

text \<open>
  Lines 50 and 51: \<^verbatim>\<open>pd.DataFrame(meetings)\<close> followed by
  \<^verbatim>\<open>meetings.dropna(subset=["meeting_id"], inplace=True)\<close>. A data frame built from an empty
  list has no columns, and \<^verbatim>\<open>dropna\<close> raises \<^verbatim>\<open>KeyError\<close> for a \<^verbatim>\<open>subset\<close> column that is not
  there; otherwise the rows whose \<^verbatim>\<open>meeting_id\<close> is missing are removed, in order.
\<close>

definition dropna :: "meeting list \<Rightarrow> error + meeting list" where
  "dropna ms =
     (if ms = [] then Inl KeyError
      else Inr (filter (\<lambda>m. meeting_id m \<noteq> None) ms))"

text \<open>One cell of \<^verbatim>\<open>meetings["numberdate"].astype(int)\<close>: \<^verbatim>\<open>None\<close> cannot be converted.\<close>

definition date_int :: "env \<Rightarrow> meeting \<Rightarrow> error + int" where
  "date_int E m =
     (case numberdate m of None \<Rightarrow> Inl TypeError | Some s \<Rightarrow> astype_int E s)"

text \<open>The whole column, converted row by row; the first failure is raised.\<close>

fun astype_column :: "env \<Rightarrow> meeting list \<Rightarrow> error + int list" where
  "astype_column E [] = Inr []"
| "astype_column E (m # ms) =
     (case date_int E m of
        Inl e \<Rightarrow> Inl e
      | Inr d \<Rightarrow>
          (case astype_column E ms of
             Inl e \<Rightarrow> Inl e
           | Inr ds \<Rightarrow> Inr (d # ds)))"

text \<open>\<^verbatim>\<open>meetings[mask]\<close>: the rows at which the boolean column is true.\<close>

definition select :: "meeting list \<Rightarrow> bool list \<Rightarrow> meeting list" where
  "select ms flags = map fst (filter snd (zip ms flags))"

text \<open>
  Lines 52 to 61. In each branch the column is converted before the bound is, as Python
  evaluates the left operand of a comparison first; the last branch converts the column
  twice.
\<close>

definition filter_dates :: "env \<Rightarrow> date_filter \<Rightarrow> meeting list \<Rightarrow> error + meeting list" where
  "filter_dates E date ms =
     (case date of
        None \<Rightarrow> Inr ms
      | Some (None, Some t) \<Rightarrow>
          (case astype_column E ms of
             Inl e \<Rightarrow> Inl e
           | Inr col \<Rightarrow>
               (case py_int E t of
                  Inl e \<Rightarrow> Inl e
                | Inr hi \<Rightarrow> Inr (select ms (map (\<lambda>d. d \<le> hi) col))))
      | Some (Some f, None) \<Rightarrow>
          (case astype_column E ms of
             Inl e \<Rightarrow> Inl e
           | Inr col \<Rightarrow>
               (case py_int E f of
                  Inl e \<Rightarrow> Inl e
                | Inr lo \<Rightarrow> Inr (select ms (map (\<lambda>d. d \<ge> lo) col))))
      | Some (Some f, Some t) \<Rightarrow>
          (case astype_column E ms of
             Inl e \<Rightarrow> Inl e
           | Inr col \<Rightarrow>
               (case py_int E f of
                  Inl e \<Rightarrow> Inl e
                | Inr lo \<Rightarrow>
                    (case astype_column E ms of
                       Inl e \<Rightarrow> Inl e
                     | Inr col' \<Rightarrow>
                         (case py_int E t of
                            Inl e \<Rightarrow> Inl e
                          | Inr hi \<Rightarrow>
                              Inr (select ms
                                (map (\<lambda>(a, b). a \<and> b)
                                  (zip (map (\<lambda>d. d \<ge> lo) col)
                                       (map (\<lambda>d. d \<le> hi) col'))))))))
      | Some (None, None) \<Rightarrow> Inr ms)"

text \<open>Lines 41 to 62: everything after the response has been parsed.\<close>

definition meetings_of_json ::
  "env \<Rightarrow> string \<Rightarrow> date_filter \<Rightarrow> raw_meeting list \<Rightarrow> error + meeting list" where
  "meetings_of_json E cid date meetings_json =
     (case dropna (map (project cid) meetings_json) of
        Inl e \<Rightarrow> Inl e
      | Inr meetings \<Rightarrow> filter_dates E date meetings)"

definition meetings_url :: "string \<Rightarrow> string" where
  "meetings_url site =
     ''https://go.boarddocs.com/'' @ site @ ''/Board.nsf/BD-GetMeetingsList?open''"

definition get_boarddoc_meetings ::
  "env \<Rightarrow> string \<Rightarrow> string \<Rightarrow> date_filter \<Rightarrow> request list
     \<Rightarrow> (error + meeting list) \<times> request list" where
  "get_boarddoc_meetings E site cid date log =
     (let data = ''current_committee_id='' @ cid;
          log' = log @ [(meetings_url site, data)]
      in case post_json E (meetings_url site) data of
           None \<Rightarrow> (Inl ResponseError, log')
         | Some meetings_json \<Rightarrow> (meetings_of_json E cid date meetings_json, log'))"

section \<open>What the code asks of the parsed document\<close>

text \<open>\<^verbatim>\<open>tag.text\<close>, that is \<^verbatim>\<open>get_text()\<close>: the text nodes below the tag, joined in document order.\<close>

fun get_text :: "node \<Rightarrow> string" where
  "get_text (Text s) = s"
| "get_text (Tag n as cs) = concat (map get_text cs)"

text \<open>
  \<^verbatim>\<open>tag.string\<close>: a tag with exactly one child has the \<^verbatim>\<open>.string\<close> of that child, a text node
  is its own \<^verbatim>\<open>.string\<close> (a \<^verbatim>\<open>NavigableString\<close>), and any other tag has \<^verbatim>\<open>None\<close>.
\<close>

fun string_prop :: "node \<Rightarrow> pyval" where
  "string_prop (Text s) = NavigableString s"
| "string_prop (Tag n as cs) = (case cs of [c] \<Rightarrow> string_prop c | _ \<Rightarrow> PyNone)"

fun is_tag :: "node \<Rightarrow> bool" where
  "is_tag (Text s) = False"
| "is_tag (Tag n as cs) = True"

fun tag_name :: "node \<Rightarrow> string option" where
  "tag_name (Text s) = None"
| "tag_name (Tag n as cs) = Some n"

text \<open>\<^verbatim>\<open>tag.attrs.get(k)\<close> and \<^verbatim>\<open>tag.has_attr(k)\<close>.\<close>

fun attr :: "node \<Rightarrow> string \<Rightarrow> string option" where
  "attr (Text s) k = None"
| "attr (Tag n as cs) k = map_of as k"

definition has_attr :: "node \<Rightarrow> string \<Rightarrow> bool" where
  "has_attr t k = (attr t k \<noteq> None)"

text \<open>
  The list the tree builder stores under \<^verbatim>\<open>class\<close>: the maximal runs of non-whitespace
  characters of the attribute's value (whitespace as the pattern \<^verbatim>\<open>\S+\<close> sees it on ASCII:
  tab to carriage return, the four separators 28 to 31, and the space).
\<close>

definition is_space :: "char \<Rightarrow> bool" where
  "is_space c = (let n = (of_char c :: nat) in (9 \<le> n \<and> n \<le> 13) \<or> (28 \<le> n \<and> n \<le> 32))"

fun split_ws :: "string \<Rightarrow> string \<Rightarrow> string list" where
  "split_ws cur [] = (if cur = [] then [] else [rev cur])"
| "split_ws cur (c # cs) =
     (if is_space c then (if cur = [] then split_ws [] cs else rev cur # split_ws [] cs)
      else split_ws (c # cur) cs)"

definition class_list :: "node \<Rightarrow> string list" where
  "class_list t = (case attr t ''class'' of None \<Rightarrow> [] | Some v \<Rightarrow> split_ws [] v)"

text \<open>
  The filter \<^verbatim>\<open>{"class": c}\<close> of \<^verbatim>\<open>find\<close>, \<^verbatim>\<open>find_all\<close> and \<^verbatim>\<open>find_parent\<close>, for a class name \<open>c\<close>
  without whitespace, as all three names of the program are: one entry of the class list
  is \<open>c\<close>.
\<close>

definition has_class :: "string \<Rightarrow> node \<Rightarrow> bool" where
  "has_class c t = (c \<in> set (class_list t))"

definition named :: "string \<Rightarrow> node \<Rightarrow> bool" where
  "named n t = (tag_name t = Some n)"

text \<open>
  The nodes at and below a node in document order, each with its ancestors, nearest
  first; \<open>descendants\<close> is \<^verbatim>\<open>tag.descendants\<close>, which leaves the tag itself out.
\<close>

fun walk :: "node list \<Rightarrow> node \<Rightarrow> (node list \<times> node) list" where
  "walk anc (Text s) = [(anc, Text s)]"
| "walk anc (Tag n as cs) =
     (anc, Tag n as cs) # concat (map (walk (Tag n as cs # anc)) cs)"

fun descendants :: "node \<Rightarrow> (node list \<times> node) list" where
  "descendants (Text s) = []"
| "descendants (Tag n as cs) = concat (map (walk [Tag n as cs]) cs)"

text \<open>\<^verbatim>\<open>soup.find_all(name, ...)\<close>: the matching tags below, in document order.\<close>

definition find_all :: "node \<Rightarrow> string \<Rightarrow> (node \<Rightarrow> bool) \<Rightarrow> (node list \<times> node) list" where
  "find_all soup n P = filter (\<lambda>(anc, t). named n t \<and> P t) (descendants soup)"

text \<open>\<^verbatim>\<open>soup.find(name, ...)\<close>: the first of them, or \<^verbatim>\<open>None\<close>.\<close>

definition find_first :: "node \<Rightarrow> string \<Rightarrow> (node \<Rightarrow> bool) \<Rightarrow> node option" where
  "find_first soup n P =
     (case find_all soup n P of [] \<Rightarrow> None | (anc, t) # rest \<Rightarrow> Some t)"

text \<open>
  \<^verbatim>\<open>tag.findChild()\<close> without a filter: the first tag among the descendants, or \<^verbatim>\<open>None\<close>.
\<close>

definition findChild :: "node \<Rightarrow> node option" where
  "findChild t = List.find is_tag (map snd (descendants t))"

text \<open>
  \<^verbatim>\<open>tag.find_parent("div", {"class": "agendaorder"})\<close>, from the ancestors of the tag,
  nearest first.
\<close>

definition find_parent :: "node list \<Rightarrow> string \<Rightarrow> string \<Rightarrow> node option" where
  "find_parent anc n c = List.find (\<lambda>t. named n t \<and> has_class c t) anc"

text \<open>
  \<^verbatim>\<open>re.search("(?<=Subject\n).+", text)\<close>: the leftmost position that follows the eight
  characters \<^verbatim>\<open>Subject\n\<close> and holds a character other than a newline; the match runs to the
  next newline or to the end. \<open>None\<close> when there is no such position.
\<close>

definition newline :: char where
  "newline = CHR 0x0A"

definition subject_label :: string where
  "subject_label = ''Subject'' @ [newline]"

fun search_subject :: "string \<Rightarrow> string option" where
  "search_subject [] = None"
| "search_subject (c # cs) =
     (case drop 8 (c # cs) of
        [] \<Rightarrow> search_subject cs
      | x # xs \<Rightarrow>
          if take 8 (c # cs) = subject_label \<and> x \<noteq> newline
          then Some (takeWhile (\<lambda>y. y \<noteq> newline) (x # xs))
          else search_subject cs)"

text \<open>
  \<^verbatim>\<open>re.search(...)[0]\<close> on the text of a node: subscripting \<^verbatim>\<open>None\<close> raises \<^verbatim>\<open>TypeError\<close>.
\<close>

definition subject_of :: "node \<Rightarrow> error + string" where
  "subject_of t =
     (case search_subject (get_text t) of None \<Rightarrow> Inl TypeError | Some s \<Rightarrow> Inr s)"

text \<open>
  The item label of a file: \<^verbatim>\<open>div.find_parent("div", {"class": "agendaorder"}).text\<close> raises
  \<^verbatim>\<open>AttributeError\<close> when no such ancestor exists.
\<close>

definition parent_subject :: "node list \<Rightarrow> error + string" where
  "parent_subject anc =
     (case find_parent anc ''div'' ''agendaorder'' of
        None \<Rightarrow> Inl AttributeError
      | Some p \<Rightarrow> subject_of p)"

text \<open>\<^verbatim>\<open>re.compile("legacy-content").search(s)\<close> succeeds when the word occurs in \<open>s\<close>.\<close>

fun contains :: "string \<Rightarrow> string \<Rightarrow> bool" where
  "contains w [] = (w = [])"
| "contains w (c # cs) = (take (length w) (c # cs) = w \<or> contains w cs)"

section \<open>Agenda extractor: \<^verbatim>\<open>process_boarddoc_meeting\<close>\<close>

record agenda =
  agenda_meeting_id :: string
  agenda_name :: pyval
  agenda_date :: pyval
  description :: pyval
  items :: "string list"
  full_text :: string
  files :: "(string \<times> string \<times> string) list"

text \<open>The body of the loop of lines 103 to 110, on the item list so far; \<open>d\<close> is \<^verbatim>\<open>div\<close>.\<close>

definition item_step :: "node \<Rightarrow> string list \<Rightarrow> error + string list" where
  "item_step d agenda_items =
     (if has_attr d ''aria-level'' then
        (if attr d ''aria-level'' = Some ''1'' then
           (if get_text d \<notin> set agenda_items
            then Inr (agenda_items @ [get_text d])
            else Inr agenda_items)
         else Inr agenda_items)
      else if has_attr d ''class'' then
        (if ''agendaorder'' \<in> set (class_list d) then
           (case subject_of d of
              Inl e \<Rightarrow> Inl e
            | Inr s \<Rightarrow> Inr (agenda_items @ [s]))
         else Inr agenda_items)
      else Inr agenda_items)"

fun items_loop :: "node list \<Rightarrow> string list \<Rightarrow> error + string list" where
  "items_loop [] agenda_items = Inr agenda_items"
| "items_loop (d # ds) agenda_items =
     (case item_step d agenda_items of
        Inl e \<Rightarrow> Inl e
      | Inr agenda_items' \<Rightarrow> items_loop ds agenda_items')"

text \<open>Lines 102 to 111: the loop over \<^verbatim>\<open>soup.find_all("div")\<close>, from the empty list.\<close>

definition agenda_items :: "node \<Rightarrow> error + string list" where
  "agenda_items soup = items_loop (map snd (find_all soup ''div'' (\<lambda>t. True))) []"

text \<open>The body of the first file loop, lines 115 to 122, on the list \<^verbatim>\<open>files\<close> so far.\<close>

definition public_file_step ::
  "node list \<times> node \<Rightarrow> (string \<times> string \<times> string) list
     \<Rightarrow> error + (string \<times> string \<times> string) list" where
  "public_file_step d fs =
     (case List.find (named ''a'') (map snd (descendants (snd d))) of
        None \<Rightarrow> Inr fs
      | Some file \<Rightarrow>
          (case attr file ''href'' of
             None \<Rightarrow> Inr fs
           | Some href \<Rightarrow>
               (case parent_subject (fst d) of
                  Inl e \<Rightarrow> Inl e
                | Inr item \<Rightarrow> Inr (fs @ [(item, get_text file, href)]))))"

text \<open>The body of the second file loop, lines 124 to 132; \<^verbatim>\<open>div\<close> is the hyperlink.\<close>

definition legacy_file_step ::
  "node list \<times> node \<Rightarrow> (string \<times> string \<times> string) list
     \<Rightarrow> error + (string \<times> string \<times> string) list" where
  "legacy_file_step d fs =
     (case parent_subject (fst d) of
        Inl e \<Rightarrow> Inl e
      | Inr item \<Rightarrow>
          (case findChild (snd d) of
             None \<Rightarrow> Inl AttributeError
           | Some file \<Rightarrow>
               (let filename = (case attr file ''alt'' of Some alt \<Rightarrow> alt | None \<Rightarrow> [])
                in case attr (snd d) ''href'' of
                     None \<Rightarrow> Inl KeyError
                   | Some href \<Rightarrow> Inr (fs @ [(item, filename, href)]))))"

fun files_loop ::
  "(node list \<times> node \<Rightarrow> (string \<times> string \<times> string) list
      \<Rightarrow> error + (string \<times> string \<times> string) list)
   \<Rightarrow> (node list \<times> node) list \<Rightarrow> (string \<times> string \<times> string) list
   \<Rightarrow> error + (string \<times> string \<times> string) list" where
  "files_loop step [] fs = Inr fs"
| "files_loop step (d # ds) fs =
     (case step d fs of
        Inl e \<Rightarrow> Inl e
      | Inr fs' \<Rightarrow> files_loop step ds fs')"

text \<open>The hyperlinks of the second pass: \<^verbatim>\<open>soup.find_all("a", href=re.compile("legacy-content"))\<close>.\<close>

definition legacy_links :: "node \<Rightarrow> (node list \<times> node) list" where
  "legacy_links soup =
     find_all soup ''a''
       (\<lambda>t. case attr t ''href'' of None \<Rightarrow> False | Some h \<Rightarrow> contains ''legacy-content'' h)"

text \<open>
  Lines 91 to 134, on the parsed page. \<^verbatim>\<open>soup.find(...)\<close> is \<^verbatim>\<open>None\<close> when the element is not
  there, and reading \<^verbatim>\<open>.string\<close> from it raises \<^verbatim>\<open>AttributeError\<close>.
\<close>

definition agenda_of_soup :: "string \<Rightarrow> node \<Rightarrow> error + agenda" where
  "agenda_of_soup mid soup =
     (case find_first soup ''div'' (has_class ''print-meeting-name'') of
        None \<Rightarrow> Inl AttributeError
      | Some name_div \<Rightarrow>
     (case find_first soup ''div'' (has_class ''print-meeting-date'') of
        None \<Rightarrow> Inl AttributeError
      | Some date_div \<Rightarrow>
     (case find_first soup ''div'' (has_class ''print-meeting-description'') of
        None \<Rightarrow> Inl AttributeError
      | Some description_div \<Rightarrow>
     (let descr =
            (if type_is_str (string_prop description_div)
             then string_prop description_div
             else PyStr [])
      in
     (case agenda_items soup of
        Inl e \<Rightarrow> Inl e
      | Inr its \<Rightarrow>
     (case files_loop public_file_step
             (find_all soup ''div'' (has_class ''public-file'')) [] of
        Inl e \<Rightarrow> Inl e
      | Inr fs \<Rightarrow>
     (case files_loop legacy_file_step (legacy_links soup) fs of
        Inl e \<Rightarrow> Inl e
      | Inr fs' \<Rightarrow>
          Inr \<lparr>agenda_meeting_id = mid,
               agenda_name = string_prop name_div,
               agenda_date = string_prop date_div,
               description = descr,
               items = its,
               full_text = get_text soup,
               files = fs'\<rparr>)))))))"

definition agenda_url :: "string \<Rightarrow> string" where
  "agenda_url site = ''https://go.boarddocs.com/'' @ site @ ''/Board.nsf/PRINT-AgendaDetailed''"

definition process_boarddoc_meeting ::
  "env \<Rightarrow> string \<Rightarrow> string \<Rightarrow> string \<Rightarrow> request list
     \<Rightarrow> (error + agenda) \<times> request list" where
  "process_boarddoc_meeting E site cid mid log =
     (let data = ''id='' @ mid @ ''&'' @ ''current_committee_id='' @ cid;
          log' = log @ [(agenda_url site, data)]
      in case post_html E (agenda_url site) data of
           None \<Rightarrow> (Inl ResponseError, log')
         | Some soup \<Rightarrow> (agenda_of_soup mid soup, log'))"

section \<open>District orchestrator: \<^verbatim>\<open>process_boarddoc_district\<close>\<close>

text \<open>
  Lines 166 to 169: one fetch per committee, each result appended with \<^verbatim>\<open>pd.concat\<close>. An
  exception of a fetch leaves the loop.
\<close>

fun concat_loop ::
  "env \<Rightarrow> string \<Rightarrow> date_filter \<Rightarrow> string list \<Rightarrow> meeting list \<Rightarrow> request list
     \<Rightarrow> (error + meeting list) \<times> request list" where
  "concat_loop E site date [] meetings log = (Inr meetings, log)"
| "concat_loop E site date (c # cs) meetings log =
     (case get_boarddoc_meetings E site c date log of
        (Inl e, log') \<Rightarrow> (Inl e, log')
      | (Inr ms, log') \<Rightarrow> concat_loop E site date cs (meetings @ ms) log')"

text \<open>
  \<^verbatim>\<open>meetings.drop_duplicates(subset=["meeting_id"], inplace=True)\<close>, with the default
  \<^verbatim>\<open>keep="first"\<close>: a row is dropped when an earlier row has its \<^verbatim>\<open>meeting_id\<close>. The first
  argument holds the identifiers met so far. \<^verbatim>\<open>reset_index(drop=True)\<close> renumbers the rows
  from 0, which is the position in the list.
\<close>

fun drop_duplicates :: "string option list \<Rightarrow> meeting list \<Rightarrow> meeting list" where
  "drop_duplicates seen [] = []"
| "drop_duplicates seen (m # ms) =
     (if meeting_id m \<in> set seen then drop_duplicates seen ms
      else m # drop_duplicates (meeting_id m # seen) ms)"

text \<open>
  Lines 172 to 178: one call of \<^verbatim>\<open>process_boarddoc_meeting\<close> per row, in order. The
  identifier of a row is a string after \<^verbatim>\<open>dropna\<close>; were it \<^verbatim>\<open>None\<close>, building the request body
  would raise \<^verbatim>\<open>TypeError\<close> before any request is sent.
\<close>

fun agendas_loop ::
  "env \<Rightarrow> string \<Rightarrow> meeting list \<Rightarrow> agenda list \<Rightarrow> request list
     \<Rightarrow> (error + agenda list) \<times> request list" where
  "agendas_loop E site [] agendas log = (Inr agendas, log)"
| "agendas_loop E site (m # ms) agendas log =
     (case meeting_id m of
        None \<Rightarrow> (Inl TypeError, log)
      | Some mid \<Rightarrow>
          (case process_boarddoc_meeting E site (committee_id m) mid log of
             (Inl e, log') \<Rightarrow> (Inl e, log')
           | (Inr a, log') \<Rightarrow> agendas_loop E site ms (agendas @ [a]) log'))"

text \<open>
  Lines 160 to 179. After the two tests on \<^verbatim>\<open>len(committee_ids)\<close> the variable \<^verbatim>\<open>meetings\<close>
  is bound (\<open>Some\<close>) or not (\<open>None\<close>); using it unbound raises \<^verbatim>\<open>UnboundLocalError\<close>.
\<close>

definition bind_meetings ::
  "env \<Rightarrow> string \<Rightarrow> string list \<Rightarrow> date_filter \<Rightarrow> request list
     \<Rightarrow> (error + meeting list option) \<times> request list" where
  "bind_meetings E site committee_ids date log =
     (if length committee_ids = 1 then
        (case get_boarddoc_meetings E site (hd committee_ids) date log of
           (Inl e, log') \<Rightarrow> (Inl e, log')
         | (Inr ms, log') \<Rightarrow> (Inr (Some ms), log'))
      else if length committee_ids > 1 then
        (case concat_loop E site date committee_ids [] log of
           (Inl e, log') \<Rightarrow> (Inl e, log')
         | (Inr ms, log') \<Rightarrow> (Inr (Some ms), log'))
      else (Inr None, log))"

definition process_boarddoc_district ::
  "env \<Rightarrow> string \<Rightarrow> string list \<Rightarrow> date_filter \<Rightarrow> request list
     \<Rightarrow> (error + meeting list \<times> agenda list) \<times> request list" where
  "process_boarddoc_district E site committee_ids date log =
     (case bind_meetings E site committee_ids date log of
        (Inl e, log') \<Rightarrow> (Inl e, log')
      | (Inr None, log') \<Rightarrow> (Inl UnboundLocalError, log')
      | (Inr (Some meetings), log') \<Rightarrow>
          (let meetings' = drop_duplicates [] meetings
           in case agendas_loop E site meetings' [] log' of
                (Inl e, log'') \<Rightarrow> (Inl e, log'')
              | (Inr agendas, log'') \<Rightarrow> (Inr (meetings', agendas), log'')))"

section \<open>Notions the properties are stated with\<close>

text \<open>
  The rows of a feed that carry an identifier, projected, in feed order: what the
  properties below compare the fetcher's output with.
\<close>

definition present_rows :: "string \<Rightarrow> raw_meeting list \<Rightarrow> meeting list" where
  "present_rows cid js = map (project cid) (filter (\<lambda>r. unique r \<noteq> None) js)"

text \<open>
  The request a fetch of one committee sends, and the request the extractor sends for one
  row; the outcome of a fetch and of an extraction, which do not depend on the requests
  sent before.
\<close>

definition meetings_request :: "string \<Rightarrow> string \<Rightarrow> request" where
  "meetings_request site cid = (meetings_url site, ''current_committee_id='' @ cid)"

definition agenda_request :: "string \<Rightarrow> meeting \<Rightarrow> request" where
  "agenda_request site m =
     (agenda_url site,
      ''id='' @ (case meeting_id m of None \<Rightarrow> [] | Some mid \<Rightarrow> mid) @ ''&''
        @ ''current_committee_id='' @ committee_id m)"

definition fetched :: "env \<Rightarrow> string \<Rightarrow> date_filter \<Rightarrow> string \<Rightarrow> error + meeting list" where
  "fetched E site date cid = fst (get_boarddoc_meetings E site cid date [])"

definition extracted :: "env \<Rightarrow> string \<Rightarrow> meeting \<Rightarrow> error + agenda" where
  "extracted E site m =
     (case meeting_id m of
        None \<Rightarrow> Inl TypeError
      | Some mid \<Rightarrow> fst (process_boarddoc_meeting E site (committee_id m) mid []))"

text \<open>
  For the agenda items: the \<^verbatim>\<open>div\<close> elements in document order; the two rules of the loop
  (\<open>level_rule\<close>: the \<^verbatim>\<open>aria-level\<close> attribute is \<^verbatim>\<open>"1"\<close>; \<open>ordering_rule\<close>: the branch after
  \<^verbatim>\<open>elif\<close>, reached without an \<^verbatim>\<open>aria-level\<close> attribute, with \<^verbatim>\<open>agendaorder\<close> in the class list);
  what one element offers to the list, flagged \<open>True\<close> when it comes from the level rule;
  and \<open>first_seen\<close>, which keeps every offer of the ordering rule and an offer of the level
  rule only when no earlier offer has its text. \<open>contents\<close> is \<^verbatim>\<open>tag.contents\<close>, and
  \<open>agenda_data\<close> the body of the agenda request.
\<close>

definition divs :: "node \<Rightarrow> node list" where
  "divs soup = map snd (find_all soup ''div'' (\<lambda>t. True))"

definition level_rule :: "node \<Rightarrow> bool" where
  "level_rule d = (attr d ''aria-level'' = Some ''1'')"

definition ordering_rule :: "node \<Rightarrow> bool" where
  "ordering_rule d = (\<not> has_attr d ''aria-level'' \<and> has_class ''agendaorder'' d)"

definition contribution :: "node \<Rightarrow> (bool \<times> string) list" where
  "contribution d =
     (if level_rule d then [(True, get_text d)]
      else if ordering_rule d then
        (case search_subject (get_text d) of None \<Rightarrow> [] | Some s \<Rightarrow> [(False, s)])
      else [])"

definition contributions :: "node list \<Rightarrow> (bool \<times> string) list" where
  "contributions ds = concat (map contribution ds)"

definition first_seen :: "(bool \<times> string) list \<Rightarrow> string list" where
  "first_seen cs =
     map (\<lambda>(i, dedup, t). t)
       (filter (\<lambda>(i, dedup, t). \<not> dedup \<or> t \<notin> set (map snd (take i cs)))
          (enumerate 0 cs))"

definition ordering_subjects :: "node list \<Rightarrow> string list" where
  "ordering_subjects ds = map snd (filter (\<lambda>c. \<not> fst c) (contributions ds))"

fun contents :: "node \<Rightarrow> node list" where
  "contents (Text s) = []"
| "contents (Tag n as cs) = cs"

definition agenda_data :: "string \<Rightarrow> string \<Rightarrow> string" where
  "agenda_data mid cid = ''id='' @ mid @ ''&'' @ ''current_committee_id='' @ cid"

text \<open>
  For the files of the second pass, the triple the specification describes for one
  hyperlink, given with its ancestors: the Subject line of the nearest enclosing \<^verbatim>\<open>div\<close> of
  class \<^verbatim>\<open>agendaorder\<close>, the \<^verbatim>\<open>alt\<close> text of the first child element (empty when that
  element has none), and the \<^verbatim>\<open>href\<close>. There is no triple without such an ancestor, a
  Subject line in it, and a child element.
\<close>

definition legacy_triple :: "node list \<times> node \<Rightarrow> (string \<times> string \<times> string) option" where
  "legacy_triple d =
     (case find_parent (fst d) ''div'' ''agendaorder'' of
        None \<Rightarrow> None
      | Some p \<Rightarrow>
          (case search_subject (get_text p) of
             None \<Rightarrow> None
           | Some label \<Rightarrow>
               (case List.find is_tag (contents (snd d)) of
                  None \<Rightarrow> None
                | Some child \<Rightarrow>
                    (case attr (snd d) ''href'' of
                       None \<Rightarrow> None
                     | Some target \<Rightarrow>
                         Some (label,
                               (case attr child ''alt'' of Some v \<Rightarrow> v | None \<Rightarrow> []),
                               target)))))"

section \<open>A small site for the examples\<close>

text \<open>
  On a non-empty string of ASCII digits both \<^verbatim>\<open>int\<close> and \<^verbatim>\<open>astype(int)\<close> give the decimal
  value; the examples use no other date strings, and \<open>decimal\<close> rejects the rest.
\<close>

definition decimal :: "string \<Rightarrow> error + int" where
  "decimal s =
     (if s \<noteq> [] \<and> list_all (\<lambda>c. 48 \<le> (of_char c :: nat) \<and> (of_char c :: nat) \<le> 57) s
      then Inr (foldl (\<lambda>a c. 10 * a + (int (of_char c) - 48)) 0 s)
      else Inl ValueError)"

definition feed_A :: "raw_meeting list" where
  "feed_A = [\<lparr>unique = Some ''1'', raw_numberdate = Some ''20240101'', raw_name = Some ''January''\<rparr>]"

definition feed_B :: "raw_meeting list" where
  "feed_B =
     [\<lparr>unique = Some ''1'', raw_numberdate = Some ''20240101'', raw_name = Some ''January''\<rparr>,
      \<lparr>unique = Some ''2'', raw_numberdate = Some ''20240201'', raw_name = Some ''February''\<rparr>]"

definition feed_C :: "raw_meeting list" where
  "feed_C =
     [\<lparr>unique = None, raw_numberdate = None, raw_name = Some ''Draft''\<rparr>,
      \<lparr>unique = Some ''7'', raw_numberdate = Some ''20240315'', raw_name = None\<rparr>,
      \<lparr>unique = None, raw_numberdate = Some ''soon'', raw_name = None\<rparr>]"

definition feeds :: "string \<Rightarrow> string \<Rightarrow> raw_meeting list option" where
  "feeds url data =
     (if url \<noteq> meetings_url ''s'' then None
      else if data = ''current_committee_id=A'' then Some feed_A
      else if data = ''current_committee_id=B'' then Some feed_B
      else if data = ''current_committee_id=C'' then Some feed_C
      else None)"

definition feed_env :: env where
  "feed_env = \<lparr>py_int = decimal, astype_int = decimal, post_json = feeds,
                post_html = (\<lambda>url data. None)\<rparr>"

text \<open>
  Agenda pages of the example site. Page 1 has three top-level entries with one text, two
  \<^verbatim>\<open>agendaorder\<close> blocks with one subject, a public file and two legacy links, the second
  without alternative text; page 2 has a description with nested markup; on page 7 a
  legacy link has no child element; on page 4 an \<^verbatim>\<open>agendaorder\<close> block also carries an
  \<^verbatim>\<open>aria-level\<close> attribute; page 5 has no description element; page 3 has two equal
  \<^verbatim>\<open>agendaorder\<close> blocks at \<^verbatim>\<open>aria-level\<close> 1.
\<close>

definition heading :: "node list" where
  "heading =
     [Tag ''div'' [(''class'', ''print-meeting-name'')] [Text ''Regular Meeting''],
      Tag ''div'' [(''class'', ''print-meeting-date'')] [Text ''Jan 1''],
      Tag ''div'' [(''class'', ''print-meeting-description'')] [Text ''Monthly session'']]"

definition page_1 :: node where
  "page_1 =
     Tag ''[document]'' []
       (heading @
        [Tag ''div'' [(''aria-level'', ''1'')] [Text ''Opening''],
         Tag ''div'' [(''aria-level'', ''1'')] [Text ''Opening''],
         Tag ''div'' [(''aria-level'', ''1'')] [Text ''Opening''],
         Tag ''div'' [(''class'', ''agendaorder'')]
           [Text (''Subject'' @ [newline] @ ''Budget'' @ [newline] @ ''Type''),
            Tag ''div'' [(''class'', ''public-file'')]
              [Tag ''a'' [(''href'', ''/f/b.pdf'')] [Text ''b.pdf'']],
            Tag ''a'' [(''href'', ''/legacy-content/m.pdf'')]
              [Tag ''img'' [(''alt'', ''Minutes'')] []],
            Tag ''a'' [(''href'', ''/legacy-content/n.pdf'')]
              [Tag ''img'' [] []]],
         Tag ''div'' [(''class'', ''agendaorder wide'')]
           [Text (''Subject'' @ [newline] @ ''Budget'')]])"

definition description_2 :: node where
  "description_2 =
     Tag ''div'' [(''class'', ''print-meeting-description'')]
       [Tag ''b'' [] [Text ''Closed''], Text '' session'']"

definition page_2 :: node where
  "page_2 =
     Tag ''[document]'' []
       [Tag ''div'' [(''class'', ''print-meeting-name'')] [Text ''Special Meeting''],
        Tag ''div'' [(''class'', ''print-meeting-date'')] [Text ''Feb 1''],
        description_2]"

definition page_7 :: node where
  "page_7 =
     Tag ''[document]'' []
       (heading @
        [Tag ''div'' [(''class'', ''agendaorder'')]
           [Text (''Subject'' @ [newline] @ ''Archive''),
            Tag ''a'' [(''href'', ''/legacy-content/z.pdf'')] [Text ''z.pdf'']]])"

definition level_two_block :: node where
  "level_two_block =
     Tag ''div'' [(''aria-level'', ''2''), (''class'', ''agendaorder'')]
       [Text (''Subject'' @ [newline] @ ''Budget'')]"

definition page_4 :: node where
  "page_4 = Tag ''[document]'' [] (heading @ [level_two_block])"

definition level_one_block :: node where
  "level_one_block =
     Tag ''div'' [(''aria-level'', ''1''), (''class'', ''agendaorder'')]
       [Text (''Subject'' @ [newline] @ ''Budget'')]"

definition page_3 :: node where
  "page_3 = Tag ''[document]'' [] (heading @ [level_one_block, level_one_block])"

definition page_5 :: node where
  "page_5 = Tag ''[document]'' [] (take 2 heading)"

definition pages :: "string \<Rightarrow> string \<Rightarrow> node option" where
  "pages url data =
     (if url \<noteq> agenda_url ''s'' then None
      else if data = ''id=1&current_committee_id=A'' then Some page_1
      else if data = ''id=2&current_committee_id=B'' then Some page_2
      else if data = ''id=7&current_committee_id=C'' then Some page_7
      else if data = ''id=4&current_committee_id=A'' then Some page_4
      else if data = ''id=5&current_committee_id=A'' then Some page_5
      else if data = ''id=3&current_committee_id=A'' then Some page_3
      else None)"

definition site_env :: env where
  "site_env = feed_env\<lparr>post_html := pages\<rparr>"


definition agenda_1 :: agenda where
  "agenda_1 =
     \<lparr>agenda_meeting_id = ''1'',
      agenda_name = NavigableString ''Regular Meeting'',
      agenda_date = NavigableString ''Jan 1'',
      description = PyStr [],
      items = [''Opening'', ''Budget'', ''Budget''],
      full_text =
        ''Regular MeetingJan 1Monthly sessionOpeningOpeningOpeningSubject'' @ [newline]
          @ ''Budget'' @ [newline] @ ''Typeb.pdfSubject'' @ [newline] @ ''Budget'',
      files =
        [(''Budget'', ''b.pdf'', ''/f/b.pdf''),
         (''Budget'', ''Minutes'', ''/legacy-content/m.pdf''),
         (''Budget'', [], ''/legacy-content/n.pdf'')]\<rparr>"

definition agenda_2 :: agenda where
  "agenda_2 =
     \<lparr>agenda_meeting_id = ''2'',
      agenda_name = NavigableString ''Special Meeting'',
      agenda_date = NavigableString ''Feb 1'',
      description = PyStr [],
      items = [],
      full_text = ''Special MeetingFeb 1Closed session'',
      files = []\<rparr>"

definition row_1 :: meeting where
  "row_1 = \<lparr>meeting_id = Some ''1'', committee_id = ''A'',
            numberdate = Some ''20240101'', name = Some ''January''\<rparr>"

definition row_2 :: meeting where
  "row_2 = \<lparr>meeting_id = Some ''2'', committee_id = ''B'',
            numberdate = Some ''20240201'', name = Some ''February''\<rparr>"

definition row_7 :: meeting where
  "row_7 = \<lparr>meeting_id = Some ''7'', committee_id = ''C'',
            numberdate = Some ''20240315'', name = None\<rparr>"


section \<open>Properties of the meeting-list fetcher\<close>

lemma astype_column_sound:
  "astype_column E ms = Inr col \<Longrightarrow> map (date_int E) ms = map Inr col"
proof (induction ms arbitrary: col)
  case Nil
  then show ?case by simp
next
  case (Cons m ms)
  from Cons.prems obtain d ds where d: "date_int E m = Inr d"
    and ds: "astype_column E ms = Inr ds" and col: "col = d # ds"
    by (auto split: sum.splits)
  from Cons.IH[OF ds] d col show ?case by simp
qed

lemma astype_column_complete:
  "map (date_int E) ms = map Inr col \<Longrightarrow> astype_column E ms = Inr col"
proof (induction ms arbitrary: col)
  case Nil
  then show ?case by simp
next
  case (Cons m ms)
  then obtain d ds where col: "col = d # ds" by (cases col) auto
  with Cons.prems have d: "date_int E m = Inr d" and ds: "map (date_int E) ms = map Inr ds"
    by simp_all
  from Cons.IH[OF ds] d col show ?case by simp
qed

lemma astype_column_Inr:
  "astype_column E ms = Inr col \<longleftrightarrow> map (date_int E) ms = map Inr col"
  using astype_column_sound astype_column_complete by blast

lemma select_map:
  "map (date_int E) ms = map Inr col \<Longrightarrow>
   select ms (map P col) = filter (\<lambda>m. \<exists>d. date_int E m = Inr d \<and> P d) ms"
proof (induction ms arbitrary: col)
  case Nil then show ?case by (simp add: select_def)
next
  case (Cons m ms)
  then obtain d ds where col: "col = d # ds" by (cases col) auto
  with Cons.prems have "date_int E m = Inr d" "map (date_int E) ms = map Inr ds" by auto
  with Cons.IH[of ds] show ?case by (auto simp: select_def col)
qed

lemma select_map2:
  assumes "map (date_int E) ms = map Inr col"
  shows "select ms (map (\<lambda>(a, b). a \<and> b) (zip (map P col) (map Q col)))
         = filter (\<lambda>m. \<exists>d. date_int E m = Inr d \<and> P d \<and> Q d) ms"
proof -
  have "map (\<lambda>(a, b). a \<and> b) (zip (map P col) (map Q col)) = map (\<lambda>d. P d \<and> Q d) col"
    by (induction col) auto
  then show ?thesis using select_map[OF assms, of "\<lambda>d. P d \<and> Q d"] by simp
qed

lemma dropna_project:
  "dropna (map (project cid) js) = (if js = [] then Inl KeyError else Inr (present_rows cid js))"
  by (simp add: dropna_def present_rows_def filter_map o_def project_def)

lemma filter_dates_Inr:
  assumes "filter_dates E date ms = Inr out"
  shows "case date of
           None \<Rightarrow> out = ms
         | Some (None, None) \<Rightarrow> out = ms
         | Some (None, Some t) \<Rightarrow>
             (\<exists>hi. py_int E t = Inr hi \<and>
                out = filter (\<lambda>m. \<exists>d. date_int E m = Inr d \<and> d \<le> hi) ms)
         | Some (Some f, None) \<Rightarrow>
             (\<exists>lo. py_int E f = Inr lo \<and>
                out = filter (\<lambda>m. \<exists>d. date_int E m = Inr d \<and> lo \<le> d) ms)
         | Some (Some f, Some t) \<Rightarrow>
             (\<exists>lo hi. py_int E f = Inr lo \<and> py_int E t = Inr hi \<and>
                out = filter (\<lambda>m. \<exists>d. date_int E m = Inr d \<and> lo \<le> d \<and> d \<le> hi) ms)"
  using assms
  by (auto simp: filter_dates_def astype_column_Inr select_map select_map2
           split: option.splits sum.splits)


lemma filter_dates_subset:
  assumes "filter_dates E date ms = Inr out"
  shows "set out \<subseteq> set ms"
proof (cases date)
  case None
  with filter_dates_Inr[OF assms] show ?thesis by simp
next
  case (Some p)
  obtain a b where p: "p = (a, b)" by (cases p)
  show ?thesis
    using filter_dates_Inr[OF assms] unfolding Some p
    by (cases a; cases b) auto
qed

lemma get_boarddoc_meetings_fst:
  "post_json E (meetings_url site) (''current_committee_id='' @ cid) = Some js \<Longrightarrow>
   fst (get_boarddoc_meetings E site cid date log) = meetings_of_json E cid date js"
  by (simp add: get_boarddoc_meetings_def Let_def)

lemma meetings_of_json_Inr:
  assumes "meetings_of_json E cid date js = Inr out"
  shows "js \<noteq> []" and "filter_dates E date (present_rows cid js) = Inr out"
  using assms by (auto simp: meetings_of_json_def dropna_project split: if_splits)

lemma meetings_of_json_nonempty:
  "js \<noteq> [] \<Longrightarrow> meetings_of_json E cid date js = filter_dates E date (present_rows cid js)"
  by (simp add: meetings_of_json_def dropna_project)

text \<open>
  The fetcher does return: on a non-empty feed whose identifier-carrying rows all have a
  convertible \<^verbatim>\<open>numberdate\<close>, with convertible bounds, the date filter yields a list.
\<close>

lemma astype_column_returns:
  "\<forall>m\<in>set ms. \<exists>d. date_int E m = Inr d \<Longrightarrow> \<exists>col. astype_column E ms = Inr col"
proof (induction ms)
  case Nil
  then show ?case by simp
next
  case (Cons m ms)
  then obtain d col where "date_int E m = Inr d" "astype_column E ms = Inr col" by auto
  then show ?case by simp
qed

lemma get_boarddoc_meetings_returns:
  assumes "post_json E (meetings_url site) (''current_committee_id='' @ cid) = Some js"
    and "js \<noteq> []"
    and "\<forall>m\<in>set (present_rows cid js). \<exists>d. date_int E m = Inr d"
    and "\<forall>f t. date = Some (f, t) \<longrightarrow>
           (\<forall>s. f = Some s \<longrightarrow> (\<exists>i. py_int E s = Inr i)) \<and>
           (\<forall>s. t = Some s \<longrightarrow> (\<exists>i. py_int E s = Inr i))"
  shows "\<exists>out. fst (get_boarddoc_meetings E site cid date log) = Inr out"
proof -
  from astype_column_returns[OF assms(3)] obtain col where
    col: "astype_column E (present_rows cid js) = Inr col" by blast
  have "\<exists>out. filter_dates E date (present_rows cid js) = Inr out"
  proof (cases date)
    case None
    then show ?thesis by (simp add: filter_dates_def)
  next
    case (Some p)
    obtain f t where p: "p = (f, t)" by (cases p)
    with Some assms(4) have
      f: "\<forall>s. f = Some s \<longrightarrow> (\<exists>i. py_int E s = Inr i)" and
      t: "\<forall>s. t = Some s \<longrightarrow> (\<exists>i. py_int E s = Inr i)" by auto
    show ?thesis
    proof (cases f)
      case fn: None
      show ?thesis
      proof (cases t)
        case None
        with fn Some p show ?thesis by (simp add: filter_dates_def)
      next
        case (Some b)
        with t obtain hi where "py_int E b = Inr hi" by auto
        with fn Some \<open>date = Some p\<close> p col show ?thesis by (simp add: filter_dates_def)
      qed
    next
      case fs: (Some a)
      with f obtain lo where lo: "py_int E a = Inr lo" by auto
      show ?thesis
      proof (cases t)
        case None
        with fs lo Some p col show ?thesis by (simp add: filter_dates_def)
      next
        case (Some b)
        with t obtain hi where "py_int E b = Inr hi" by auto
        with fs lo Some \<open>date = Some p\<close> p col show ?thesis by (simp add: filter_dates_def)
      qed
    qed
  qed
  with assms(1,2) show ?thesis
    by (simp add: get_boarddoc_meetings_fst meetings_of_json_nonempty)
qed

text \<open>
  Claim C1. Whenever the fetcher returns, its output is the list of rows that carry an
  identifier, in feed order, cut down by the date filter: with both sides strings exactly
  the rows whose \<^verbatim>\<open>numberdate\<close>, converted to an integer, lies between the two bounds
  (inclusive); with only the second side a string exactly the rows at or below it; with
  only the first side a string exactly the rows at or above it; and with no string on
  either side, or no tuple at all, every one of those rows.
\<close>

theorem fetcher_date_filtering:
  assumes "post_json E (meetings_url site) (''current_committee_id='' @ cid) = Some js"
    and "fst (get_boarddoc_meetings E site cid date log) = Inr out"
  shows "case date of
           None \<Rightarrow> out = present_rows cid js
         | Some (None, None) \<Rightarrow> out = present_rows cid js
         | Some (None, Some t) \<Rightarrow>
             (\<exists>hi. py_int E t = Inr hi \<and>
                out = filter (\<lambda>m. \<exists>d. date_int E m = Inr d \<and> d \<le> hi) (present_rows cid js))
         | Some (Some f, None) \<Rightarrow>
             (\<exists>lo. py_int E f = Inr lo \<and>
                out = filter (\<lambda>m. \<exists>d. date_int E m = Inr d \<and> lo \<le> d) (present_rows cid js))
         | Some (Some f, Some t) \<Rightarrow>
             (\<exists>lo hi. py_int E f = Inr lo \<and> py_int E t = Inr hi \<and>
                out = filter (\<lambda>m. \<exists>d. date_int E m = Inr d \<and> lo \<le> d \<and> d \<le> hi)
                        (present_rows cid js))"
proof -
  from assms have "meetings_of_json E cid date js = Inr out"
    by (simp add: get_boarddoc_meetings_fst)
  then have "filter_dates E date (present_rows cid js) = Inr out"
    by (rule meetings_of_json_Inr)
  from filter_dates_Inr[OF this] show ?thesis .
qed


lemma decimal_simps:
  "decimal ''20240101'' = Inr 20240101"
  "decimal ''20240131'' = Inr 20240131"
  "decimal ''20240201'' = Inr 20240201"
  "decimal ''20240315'' = Inr 20240315"
  by (simp_all add: decimal_def)

theorem fetcher_date_filtering_witness:
  "fst (get_boarddoc_meetings feed_env ''s'' ''B'' (Some (Some ''20240101'', Some ''20240131'')) [])
     = Inr [project ''B'' (hd feed_B)] \<and>
   (\<exists>lo hi. py_int feed_env ''20240101'' = Inr lo \<and> py_int feed_env ''20240131'' = Inr hi \<and>
      [project ''B'' (hd feed_B)] =
        filter (\<lambda>m. \<exists>d. date_int feed_env m = Inr d \<and> lo \<le> d \<and> d \<le> hi)
          (present_rows ''B'' feed_B))"
proof -
  have p: "post_json feed_env (meetings_url ''s'') (''current_committee_id='' @ ''B'') = Some feed_B"
    by (simp add: feed_env_def feeds_def)
  have r: "fst (get_boarddoc_meetings feed_env ''s'' ''B'' (Some (Some ''20240101'', Some ''20240131'')) [])
     = Inr [project ''B'' (hd feed_B)]"
    unfolding get_boarddoc_meetings_fst[OF p]
    by (simp add: meetings_of_json_def dropna_def feed_B_def project_def filter_dates_def
          date_int_def feed_env_def decimal_simps select_def)
  from fetcher_date_filtering[OF p r] have c:
    "\<exists>lo hi. py_int feed_env ''20240101'' = Inr lo \<and> py_int feed_env ''20240131'' = Inr hi \<and>
      [project ''B'' (hd feed_B)] =
        filter (\<lambda>m. \<exists>d. date_int feed_env m = Inr d \<and> lo \<le> d \<and> d \<le> hi)
          (present_rows ''B'' feed_B)"
    by simp
  from r c show ?thesis by (rule conjI)
qed

text \<open>
  Claim C7. Whenever the fetcher returns, the \<^verbatim>\<open>dropna\<close> step has kept, in feed order,
  exactly the rows whose identifier is present: a row of the feed is among the kept rows
  if and only if its \<^verbatim>\<open>unique\<close> field is there. The date filter runs afterwards, on the
  kept rows only, and no row of the output lacks an identifier.
\<close>

theorem absent_identifier_excluded:
  assumes "post_json E (meetings_url site) (''current_committee_id='' @ cid) = Some js"
    and "fst (get_boarddoc_meetings E site cid date log) = Inr out"
  shows "\<exists>kept. dropna (map (project cid) js) = Inr kept \<and>
           kept = present_rows cid js \<and>
           (\<forall>r\<in>set js. (project cid r \<in> set kept) = (unique r \<noteq> None)) \<and>
           filter_dates E date kept = Inr out \<and>
           (\<forall>m\<in>set out. meeting_id m \<noteq> None)"
proof -
  from assms have run: "meetings_of_json E cid date js = Inr out"
    by (simp add: get_boarddoc_meetings_fst)
  then have ne: "js \<noteq> []" and fd: "filter_dates E date (present_rows cid js) = Inr out"
    by (rule meetings_of_json_Inr)+
  from ne have d: "dropna (map (project cid) js) = Inr (present_rows cid js)"
    by (simp add: dropna_project)
  have iff: "\<forall>r\<in>set js. (project cid r \<in> set (present_rows cid js)) = (unique r \<noteq> None)"
    by (auto simp: present_rows_def project_def)
  have "\<forall>m\<in>set (present_rows cid js). meeting_id m \<noteq> None"
    by (auto simp: present_rows_def project_def)
  with filter_dates_subset[OF fd] have "\<forall>m\<in>set out. meeting_id m \<noteq> None"
    by blast
  with d iff fd show ?thesis by blast
qed

theorem absent_identifier_excluded_witness:
  "fst (get_boarddoc_meetings feed_env ''s'' ''C'' (Some (Some ''20240101'', None)) [])
     = Inr [project ''C'' (feed_C ! 1)] \<and>
   (\<exists>kept. dropna (map (project ''C'') feed_C) = Inr kept \<and>
      kept = present_rows ''C'' feed_C \<and>
      (\<forall>r\<in>set feed_C. (project ''C'' r \<in> set kept) = (unique r \<noteq> None)) \<and>
      filter_dates feed_env (Some (Some ''20240101'', None)) kept = Inr [project ''C'' (feed_C ! 1)] \<and>
      (\<forall>m\<in>set [project ''C'' (feed_C ! 1)]. meeting_id m \<noteq> None))"
proof -
  have p: "post_json feed_env (meetings_url ''s'') (''current_committee_id='' @ ''C'') = Some feed_C"
    by (simp add: feed_env_def feeds_def)
  have r: "fst (get_boarddoc_meetings feed_env ''s'' ''C'' (Some (Some ''20240101'', None)) [])
     = Inr [project ''C'' (feed_C ! 1)]"
    unfolding get_boarddoc_meetings_fst[OF p]
    by (simp add: meetings_of_json_def dropna_def feed_C_def project_def filter_dates_def
          date_int_def feed_env_def decimal_simps select_def)
  from r absent_identifier_excluded[OF p r] show ?thesis by (rule conjI)
qed

section \<open>Properties of the district orchestrator\<close>

lemma get_boarddoc_meetings_eq:
  "get_boarddoc_meetings E site cid date log =
     (fetched E site date cid, log @ [meetings_request site cid])"
  by (simp add: get_boarddoc_meetings_def fetched_def meetings_request_def Let_def
           split: option.splits)

lemma process_boarddoc_meeting_eq:
  "meeting_id m = Some mid \<Longrightarrow>
   process_boarddoc_meeting E site (committee_id m) mid log =
     (extracted E site m, log @ [agenda_request site m])"
  by (simp add: process_boarddoc_meeting_def extracted_def agenda_request_def Let_def
           split: option.splits)

lemma concat_loop_Inr:
  "concat_loop E site date cs acc log = (Inr ms, log') \<Longrightarrow>
   \<exists>Ls. list_all2 (\<lambda>c L. fetched E site date c = Inr L) cs Ls \<and>
        ms = acc @ concat Ls \<and> log' = log @ map (meetings_request site) cs"
proof (induction cs arbitrary: acc log)
  case Nil
  then show ?case by simp
next
  case (Cons c cs)
  from Cons.prems obtain L where L: "fetched E site date c = Inr L"
    and rest: "concat_loop E site date cs (acc @ L) (log @ [meetings_request site c]) = (Inr ms, log')"
    by (auto simp: get_boarddoc_meetings_eq split: sum.splits)
  from Cons.IH[OF rest] obtain Ls where
    "list_all2 (\<lambda>c L. fetched E site date c = Inr L) cs Ls"
    "ms = (acc @ L) @ concat Ls" "log' = (log @ [meetings_request site c]) @ map (meetings_request site) cs"
    by blast
  with L have "list_all2 (\<lambda>c L. fetched E site date c = Inr L) (c # cs) (L # Ls) \<and>
        ms = acc @ concat (L # Ls) \<and> log' = log @ map (meetings_request site) (c # cs)"
    by simp
  then show ?case by blast
qed

lemma concat_loop_total:
  "list_all2 (\<lambda>c L. fetched E site date c = Inr L) cs Ls \<Longrightarrow>
   concat_loop E site date cs acc log =
     (Inr (acc @ concat Ls), log @ map (meetings_request site) cs)"
proof (induction cs arbitrary: acc log Ls)
  case Nil
  then show ?case by simp
next
  case (Cons c cs)
  then obtain L Ls' where Ls: "Ls = L # Ls'" and L: "fetched E site date c = Inr L"
    and r: "list_all2 (\<lambda>c L. fetched E site date c = Inr L) cs Ls'"
    by (auto simp: list_all2_Cons1)
  show ?case using Cons.IH[OF r] L Ls by (simp add: get_boarddoc_meetings_eq)
qed

lemma bind_meetings_Inr:
  assumes "bind_meetings E site cs date log = (Inr (Some ms), log')"
  shows "\<exists>Ls. list_all2 (\<lambda>c L. fetched E site date c = Inr L) cs Ls \<and>
        ms = concat Ls \<and> log' = log @ map (meetings_request site) cs"
proof (cases "length cs = 1")
  case True
  then obtain c where cs: "cs = [c]" by (cases cs) auto
  with assms have "fetched E site date c = Inr ms" "log' = log @ [meetings_request site c]"
    by (auto simp: bind_meetings_def get_boarddoc_meetings_eq split: sum.splits)
  then have "list_all2 (\<lambda>c L. fetched E site date c = Inr L) cs [ms] \<and>
        ms = concat [ms] \<and> log' = log @ map (meetings_request site) cs"
    using cs by simp
  then show ?thesis by blast
next
  case False
  with assms have "concat_loop E site date cs [] log = (Inr ms, log')"
    by (auto simp: bind_meetings_def split: if_splits sum.splits prod.splits)
  from concat_loop_Inr[OF this] show ?thesis by simp
qed

lemma bind_meetings_unbound:
  "fst (bind_meetings E site cs date log) = Inr None \<longleftrightarrow> cs = []"
  by (cases cs) (auto simp: bind_meetings_def split: sum.splits prod.splits)


lemma drop_duplicates_ids:
  "meeting_id ` set (drop_duplicates seen ms) = meeting_id ` set ms - set seen"
  by (induction ms arbitrary: seen) auto

lemma drop_duplicates_unseen:
  "x \<in> set (drop_duplicates seen ms) \<Longrightarrow> meeting_id x \<notin> set seen"
  using drop_duplicates_ids[of seen ms] by blast

lemma drop_duplicates_distinct:
  "distinct (map meeting_id (drop_duplicates seen ms))"
proof (induction ms arbitrary: seen)
  case Nil
  then show ?case by simp
next
  case (Cons m ms)
  have "meeting_id m \<notin> meeting_id ` set (drop_duplicates (meeting_id m # seen) ms)"
  proof
    assume "meeting_id m \<in> meeting_id ` set (drop_duplicates (meeting_id m # seen) ms)"
    then obtain x where x: "x \<in> set (drop_duplicates (meeting_id m # seen) ms)"
      and eq: "meeting_id m = meeting_id x" by blast
    from drop_duplicates_unseen[OF x] eq show False by simp
  qed
  with Cons show ?case by simp
qed

lemma drop_duplicates_subset:
  "set (drop_duplicates seen ms) \<subseteq> set ms"
  by (induction ms arbitrary: seen) auto

lemma drop_duplicates_subseq:
  "subseq (drop_duplicates seen ms) ms"
  by (induction ms arbitrary: seen) auto

lemma drop_duplicates_first:
  "m \<in> set (drop_duplicates seen ms) \<Longrightarrow>
   List.find (\<lambda>x. meeting_id x = meeting_id m) ms = Some m"
proof (induction ms arbitrary: seen)
  case Nil
  then show ?case by simp
next
  case (Cons x xs)
  show ?case
  proof (cases "meeting_id x \<in> set seen")
    case True
    with Cons.prems have m: "m \<in> set (drop_duplicates seen xs)" by simp
    then have "meeting_id m \<notin> set seen" by (rule drop_duplicates_unseen)
    with True have "meeting_id x \<noteq> meeting_id m" by auto
    with Cons.IH[OF m] show ?thesis by simp
  next
    case False
    with Cons.prems consider "m = x" | "m \<in> set (drop_duplicates (meeting_id x # seen) xs)"
      by auto
    then show ?thesis
    proof cases
      case 1
      then show ?thesis by simp
    next
      case 2
      then have "meeting_id m \<noteq> meeting_id x"
        using drop_duplicates_unseen[of m "meeting_id x # seen" xs] by auto
      with Cons.IH[OF 2] show ?thesis by simp
    qed
  qed
qed

lemma agendas_loop_Inr:
  "agendas_loop E site ms acc log = (Inr as, log') \<Longrightarrow>
   \<exists>new. as = acc @ new \<and>
     list_all2 (\<lambda>m a. meeting_id m \<noteq> None \<and> extracted E site m = Inr a) ms new \<and>
     log' = log @ map (agenda_request site) ms"
proof (induction ms arbitrary: acc log)
  case Nil
  then show ?case by simp
next
  case (Cons m ms)
  from Cons.prems obtain mid where mid: "meeting_id m = Some mid"
    by (auto split: option.splits)
  from Cons.prems mid obtain a where a: "extracted E site m = Inr a"
    and rest: "agendas_loop E site ms (acc @ [a]) (log @ [agenda_request site m]) = (Inr as, log')"
    by (auto simp: process_boarddoc_meeting_eq split: sum.splits)
  from Cons.IH[OF rest] obtain new where
    "as = (acc @ [a]) @ new"
    "list_all2 (\<lambda>m a. meeting_id m \<noteq> None \<and> extracted E site m = Inr a) ms new"
    "log' = (log @ [agenda_request site m]) @ map (agenda_request site) ms"
    by blast
  with a mid have "as = acc @ (a # new) \<and>
     list_all2 (\<lambda>m a. meeting_id m \<noteq> None \<and> extracted E site m = Inr a) (m # ms) (a # new) \<and>
     log' = log @ map (agenda_request site) (m # ms)"
    by simp
  then show ?case by blast
qed

lemma agendas_loop_total:
  "list_all2 (\<lambda>m a. meeting_id m \<noteq> None \<and> extracted E site m = Inr a) ms new \<Longrightarrow>
   agendas_loop E site ms acc log = (Inr (acc @ new), log @ map (agenda_request site) ms)"
proof (induction ms arbitrary: acc log new)
  case Nil
  then show ?case by simp
next
  case (Cons m ms)
  then obtain a new' where new: "new = a # new'" and mid: "meeting_id m \<noteq> None"
    and a: "extracted E site m = Inr a"
    and r: "list_all2 (\<lambda>m a. meeting_id m \<noteq> None \<and> extracted E site m = Inr a) ms new'"
    by (auto simp: list_all2_Cons1)
  from mid obtain i where i: "meeting_id m = Some i" by auto
  show ?case using Cons.IH[OF r] a new i by (simp add: process_boarddoc_meeting_eq)
qed

lemma agendas_loop_fails:
  assumes "\<forall>x\<in>set pre. meeting_id x \<noteq> None \<and> (\<exists>a. extracted E site x = Inr a)"
    and "meeting_id m \<noteq> None" and "extracted E site m = Inl e"
  shows "agendas_loop E site (pre @ m # post) acc log =
           (Inl e, log @ map (agenda_request site) (pre @ [m]))"
  using assms(1)
proof (induction pre arbitrary: acc log)
  case Nil
  from assms(2) obtain i where "meeting_id m = Some i" by auto
  with assms(3) show ?case by (simp add: process_boarddoc_meeting_eq)
next
  case (Cons x pre)
  then obtain i a where "meeting_id x = Some i" "extracted E site x = Inr a" by auto
  with Cons show ?case by (simp add: process_boarddoc_meeting_eq)
qed

lemma fetched_ids:
  assumes "fetched E site date cid = Inr ms"
  shows "\<forall>m\<in>set ms. meeting_id m \<noteq> None"
proof (cases "post_json E (meetings_url site) (''current_committee_id='' @ cid)")
  case None
  with assms show ?thesis by (simp add: fetched_def get_boarddoc_meetings_def Let_def)
next
  case (Some js)
  with assms have "meetings_of_json E cid date js = Inr ms"
    by (simp add: fetched_def get_boarddoc_meetings_fst)
  then have "filter_dates E date (present_rows cid js) = Inr ms"
    by (rule meetings_of_json_Inr)
  from filter_dates_subset[OF this] show ?thesis
    by (auto simp: present_rows_def project_def)
qed

lemma bind_meetings_ids:
  assumes "bind_meetings E site cs date log = (Inr (Some ms), log')"
  shows "\<forall>m\<in>set ms. meeting_id m \<noteq> None"
proof -
  from bind_meetings_Inr[OF assms] obtain Ls where
    Ls: "list_all2 (\<lambda>c L. fetched E site date c = Inr L) cs Ls" and ms: "ms = concat Ls"
    by blast
  have "\<forall>L\<in>set Ls. \<forall>m\<in>set L. meeting_id m \<noteq> None"
  proof
    fix L assume "L \<in> set Ls"
    with Ls obtain c where "fetched E site date c = Inr L"
      by (auto simp: list_all2_conv_all_nth in_set_conv_nth)
    then show "\<forall>m\<in>set L. meeting_id m \<noteq> None" by (rule fetched_ids)
  qed
  with ms show ?thesis by auto
qed


text \<open>
  Claim C9. Called with no committee at all, the orchestrator sends no request and fails
  with \<^verbatim>\<open>UnboundLocalError\<close>: neither test on the length binds \<^verbatim>\<open>meetings\<close>. With at least one
  committee the two tests never leave \<^verbatim>\<open>meetings\<close> unbound.
\<close>

theorem empty_committee_list_unbound:
  "process_boarddoc_district E site [] date log = (Inl UnboundLocalError, log) \<and>
   (committee_ids \<noteq> [] \<longrightarrow> fst (bind_meetings E site committee_ids date log) \<noteq> Inr None)"
proof
  show "process_boarddoc_district E site [] date log = (Inl UnboundLocalError, log)"
    by (simp add: process_boarddoc_district_def bind_meetings_def)
  show "committee_ids \<noteq> [] \<longrightarrow>
          fst (bind_meetings E site committee_ids date log) \<noteq> Inr None"
    by (simp add: bind_meetings_unbound)
qed

text \<open>
  Claim C2. When the orchestrator returns for a non-empty list of committees, every
  committee was fetched once, in order; the returned meetings are the concatenation of the
  fetched lists with every row dropped whose identifier an earlier row has (so the
  identifiers are distinct, none is lost, and each row kept is the first of its
  identifier); the agendas are, position by position, the extraction of each returned
  meeting, requested under the committee of that row; and the requests sent are the
  fetches in committee order followed by one agenda request per returned meeting, in
  order.
\<close>

theorem district_composition:
  assumes "committee_ids \<noteq> []"
    and "process_boarddoc_district E site committee_ids date log = (Inr (meetings, agendas), log')"
  shows "\<exists>lists.
           list_all2 (\<lambda>c ms. fetched E site date c = Inr ms) committee_ids lists \<and>
           meetings = drop_duplicates [] (concat lists) \<and>
           distinct (map meeting_id meetings) \<and>
           meeting_id ` set meetings = meeting_id ` set (concat lists) \<and>
           (\<forall>m\<in>set meetings.
              List.find (\<lambda>x. meeting_id x = meeting_id m) (concat lists) = Some m) \<and>
           list_all2 (\<lambda>m a. meeting_id m \<noteq> None \<and> extracted E site m = Inr a) meetings agendas \<and>
           log' = log @ map (meetings_request site) committee_ids
                      @ map (agenda_request site) meetings"
proof -
  from assms(2) obtain ms log1 where
    b: "bind_meetings E site committee_ids date log = (Inr (Some ms), log1)"
    and m: "meetings = drop_duplicates [] ms"
    and l: "agendas_loop E site meetings [] log1 = (Inr agendas, log')"
    by (auto simp: process_boarddoc_district_def Let_def
             split: prod.splits sum.splits option.splits)
  from bind_meetings_Inr[OF b] obtain lists where
    f: "list_all2 (\<lambda>c ms. fetched E site date c = Inr ms) committee_ids lists"
    and c: "ms = concat lists" and l1: "log1 = log @ map (meetings_request site) committee_ids"
    by blast
  from agendas_loop_Inr[OF l] have
    a: "list_all2 (\<lambda>m a. meeting_id m \<noteq> None \<and> extracted E site m = Inr a) meetings agendas"
    and l2: "log' = log1 @ map (agenda_request site) meetings"
    by auto
  have d: "distinct (map meeting_id meetings)"
    unfolding m by (rule drop_duplicates_distinct)
  have i: "meeting_id ` set meetings = meeting_id ` set (concat lists)"
    unfolding m c by (simp add: drop_duplicates_ids)
  have k: "\<forall>m\<in>set meetings.
              List.find (\<lambda>x. meeting_id x = meeting_id m) (concat lists) = Some m"
    unfolding m c by (blast intro: drop_duplicates_first)
  from f m c d i k a l1 l2 show ?thesis by auto
qed

text \<open>
  Claim C6. Once the meetings are fetched, if the extractor fails for some meeting of the
  deduplicated list then the orchestrator returns no pair at all: it fails with the error
  of the first meeting \<open>f\<close> whose extraction fails (the given one, or one before it), and
  the agenda requests sent are those of the meetings up to \<open>f\<close> and no later one.
\<close>

theorem orchestrator_fail_fast:
  assumes "bind_meetings E site committee_ids date log = (Inr (Some ms), log1)"
    and "m \<in> set (drop_duplicates [] ms)"
    and "extracted E site m = Inl e"
  shows "\<exists>pre f post e'.
           drop_duplicates [] ms = pre @ f # post \<and>
           (\<forall>x\<in>set pre. \<exists>a. extracted E site x = Inr a) \<and>
           extracted E site f = Inl e' \<and>
           m \<in> set (f # post) \<and>
           process_boarddoc_district E site committee_ids date log =
             (Inl e', log1 @ map (agenda_request site) (pre @ [f]))"
proof -
  let ?dd = "drop_duplicates [] ms"
  let ?bad = "\<lambda>x. \<forall>a. extracted E site x \<noteq> Inr a"
  have "?bad m" using assms(3) by simp
  with assms(2) have "\<exists>x\<in>set ?dd. ?bad x" by blast
  from split_list_first_prop[OF this] obtain pre f post where
    sp: "?dd = pre @ f # post" and bad: "?bad f" and good: "\<forall>x\<in>set pre. \<not> ?bad x"
    by blast
  from bad obtain e' where e': "extracted E site f = Inl e'"
    by (cases "extracted E site f") auto
  have ids: "\<forall>x\<in>set ?dd. meeting_id x \<noteq> None"
    using bind_meetings_ids[OF assms(1)] drop_duplicates_subset[of "[]" ms]
    by blast
  with sp have idf: "meeting_id f \<noteq> None"
    and idp: "\<forall>x\<in>set pre. meeting_id x \<noteq> None" by auto
  from good idp have pre_ok:
    "\<forall>x\<in>set pre. meeting_id x \<noteq> None \<and> (\<exists>a. extracted E site x = Inr a)" by blast
  have loop: "agendas_loop E site ?dd [] log1 =
      (Inl e', log1 @ map (agenda_request site) (pre @ [f]))"
    unfolding sp by (rule agendas_loop_fails[OF pre_ok idf e'])
  have run: "process_boarddoc_district E site committee_ids date log =
             (Inl e', log1 @ map (agenda_request site) (pre @ [f]))"
    using assms(1) loop by (simp add: process_boarddoc_district_def Let_def)
  from assms(3) good have "m \<notin> set pre" by auto
  with assms(2) sp have "m \<in> set (f # post)" by auto
  with sp good e' run show ?thesis by blast
qed

subsection \<open>The example site, run\<close>

lemma page_1_agenda: "agenda_of_soup ''1'' page_1 = Inr agenda_1"
  by code_simp

lemma page_2_agenda: "agenda_of_soup ''2'' page_2 = Inr agenda_2"
  by code_simp

lemma page_7_agenda: "agenda_of_soup ''7'' page_7 = Inl AttributeError"
  by code_simp

lemma fetched_A: "fetched site_env ''s'' None ''A'' = Inr [row_1]"
  by code_simp

lemma fetched_B: "fetched site_env ''s'' None ''B'' = Inr [row_1\<lparr>committee_id := ''B''\<rparr>, row_2]"
  by code_simp

lemma fetched_C: "fetched site_env ''s'' None ''C'' = Inr [row_7]"
  by code_simp

lemma extracted_1: "extracted site_env ''s'' row_1 = Inr agenda_1"
  by code_simp

lemma extracted_2: "extracted site_env ''s'' row_2 = Inr agenda_2"
  by code_simp

lemma extracted_7: "extracted site_env ''s'' row_7 = Inl AttributeError"
  by code_simp



theorem empty_committee_list_unbound_witness:
  "process_boarddoc_district site_env ''s'' [] None [] = (Inl UnboundLocalError, []) \<and>
   [''A''] \<noteq> [] \<and> fst (bind_meetings site_env ''s'' [''A''] None []) \<noteq> Inr None"
  using empty_committee_list_unbound[of site_env "''s''" None "[]" "[''A'']"] by simp

lemma bind_A_B:
  "bind_meetings site_env ''s'' [''A'', ''B''] None [] =
     (Inr (Some [row_1, row_1\<lparr>committee_id := ''B''\<rparr>, row_2]),
      [meetings_request ''s'' ''A'', meetings_request ''s'' ''B''])"
proof -
  have "list_all2 (\<lambda>c L. fetched site_env ''s'' None c = Inr L) [''A'', ''B'']
          [[row_1], [row_1\<lparr>committee_id := ''B''\<rparr>, row_2]]"
    by (simp add: fetched_A fetched_B)
  from concat_loop_total[OF this, of "[]" "[]"] show ?thesis
    by (simp add: bind_meetings_def)
qed

lemma bind_A_C_B:
  "bind_meetings site_env ''s'' [''A'', ''C'', ''B''] None [] =
     (Inr (Some [row_1, row_7, row_1\<lparr>committee_id := ''B''\<rparr>, row_2]),
      [meetings_request ''s'' ''A'', meetings_request ''s'' ''C'', meetings_request ''s'' ''B''])"
proof -
  have "list_all2 (\<lambda>c L. fetched site_env ''s'' None c = Inr L) [''A'', ''C'', ''B'']
          [[row_1], [row_7], [row_1\<lparr>committee_id := ''B''\<rparr>, row_2]]"
    by (simp add: fetched_A fetched_B fetched_C)
  from concat_loop_total[OF this, of "[]" "[]"] show ?thesis
    by (simp add: bind_meetings_def)
qed

lemma dedup_A_B:
  "drop_duplicates [] [row_1, row_1\<lparr>committee_id := ''B''\<rparr>, row_2] = [row_1, row_2]"
  by (simp add: row_1_def row_2_def)

lemma dedup_A_C_B:
  "drop_duplicates [] [row_1, row_7, row_1\<lparr>committee_id := ''B''\<rparr>, row_2]
     = [row_1, row_7, row_2]"
  by (simp add: row_1_def row_2_def row_7_def)

lemma district_A_B:
  "process_boarddoc_district site_env ''s'' [''A'', ''B''] None [] =
     (Inr ([row_1, row_2], [agenda_1, agenda_2]),
      [meetings_request ''s'' ''A'', meetings_request ''s'' ''B'',
       agenda_request ''s'' row_1, agenda_request ''s'' row_2])"
proof -
  have "list_all2 (\<lambda>m a. meeting_id m \<noteq> None \<and> extracted site_env ''s'' m = Inr a)
          [row_1, row_2] [agenda_1, agenda_2]"
    by (simp add: extracted_1 extracted_2) (simp add: row_1_def row_2_def)
  from agendas_loop_total[OF this, of "[]"] show ?thesis
    by (simp add: process_boarddoc_district_def bind_A_B dedup_A_B
             del: drop_duplicates.simps agendas_loop.simps)
qed

theorem district_composition_witness:
  "[''A'', ''B''] \<noteq> [] \<and>
   process_boarddoc_district site_env ''s'' [''A'', ''B''] None [] =
     (Inr ([row_1, row_2], [agenda_1, agenda_2]),
      [meetings_request ''s'' ''A'', meetings_request ''s'' ''B'',
       agenda_request ''s'' row_1, agenda_request ''s'' row_2]) \<and>
   (\<exists>lists.
      list_all2 (\<lambda>c ms. fetched site_env ''s'' None c = Inr ms) [''A'', ''B''] lists \<and>
      [row_1, row_2] = drop_duplicates [] (concat lists) \<and>
      distinct (map meeting_id [row_1, row_2]) \<and>
      meeting_id ` set [row_1, row_2] = meeting_id ` set (concat lists) \<and>
      (\<forall>m\<in>set [row_1, row_2].
         List.find (\<lambda>x. meeting_id x = meeting_id m) (concat lists) = Some m) \<and>
      list_all2 (\<lambda>m a. meeting_id m \<noteq> None \<and> extracted site_env ''s'' m = Inr a)
        [row_1, row_2] [agenda_1, agenda_2] \<and>
      [meetings_request ''s'' ''A'', meetings_request ''s'' ''B'',
       agenda_request ''s'' row_1, agenda_request ''s'' row_2] =
        [] @ map (meetings_request ''s'') [''A'', ''B'']
           @ map (agenda_request ''s'') [row_1, row_2])"
proof -
  have ne: "[''A'', ''B''] \<noteq> []" by simp
  from ne district_A_B district_composition[OF ne district_A_B] show ?thesis
    by (intro conjI)
qed

theorem orchestrator_fail_fast_witness:
  "bind_meetings site_env ''s'' [''A'', ''C'', ''B''] None [] =
     (Inr (Some [row_1, row_7, row_1\<lparr>committee_id := ''B''\<rparr>, row_2]),
      [meetings_request ''s'' ''A'', meetings_request ''s'' ''C'', meetings_request ''s'' ''B'']) \<and>
   row_7 \<in> set (drop_duplicates [] [row_1, row_7, row_1\<lparr>committee_id := ''B''\<rparr>, row_2]) \<and>
   extracted site_env ''s'' row_7 = Inl AttributeError \<and>
   (\<exists>pre f post e'.
      drop_duplicates [] [row_1, row_7, row_1\<lparr>committee_id := ''B''\<rparr>, row_2]
        = pre @ f # post \<and>
      (\<forall>x\<in>set pre. \<exists>a. extracted site_env ''s'' x = Inr a) \<and>
      extracted site_env ''s'' f = Inl e' \<and>
      row_7 \<in> set (f # post) \<and>
      process_boarddoc_district site_env ''s'' [''A'', ''C'', ''B''] None [] =
        (Inl e',
         [meetings_request ''s'' ''A'', meetings_request ''s'' ''C'', meetings_request ''s'' ''B'']
           @ map (agenda_request ''s'') (pre @ [f])))"
proof -
  have m: "row_7 \<in> set (drop_duplicates [] [row_1, row_7, row_1\<lparr>committee_id := ''B''\<rparr>, row_2])"
    by (simp only: dedup_A_C_B) simp
  from bind_A_C_B m extracted_7 orchestrator_fail_fast[OF bind_A_C_B m extracted_7]
  show ?thesis by (intro conjI)
qed

section \<open>Properties of the agenda extractor\<close>

lemma agenda_items_divs: "agenda_items soup = items_loop (divs soup) []"
  by (simp add: agenda_items_def divs_def)

lemma has_class_attr: "has_class c d \<Longrightarrow> has_attr d ''class''"
  by (cases "attr d ''class''") (auto simp: has_class_def class_list_def has_attr_def)

lemma item_step_Inr:
  assumes "item_step d acc = Inr acc'"
  shows "acc' = acc @ map snd (filter (\<lambda>(dedup, t). \<not> dedup \<or> t \<notin> set acc) (contribution d))"
proof (cases "has_attr d ''aria-level''")
  case True
  then have "\<not> ordering_rule d" by (simp add: ordering_rule_def)
  with True assms show ?thesis
    by (auto simp: item_step_def contribution_def level_rule_def split: if_splits)
next
  case False
  then have nl: "\<not> level_rule d" by (simp add: level_rule_def has_attr_def)
  show ?thesis
  proof (cases "has_class ''agendaorder'' d")
    case True
    with False have o: "ordering_rule d" by (simp add: ordering_rule_def)
    from True have "has_attr d ''class''" by (rule has_class_attr)
    with True False assms nl o show ?thesis
      by (auto simp: item_step_def contribution_def has_class_def subject_of_def
               split: option.splits)
  next
    case no: False
    with False have o: "\<not> ordering_rule d" by (simp add: ordering_rule_def)
    with no False assms nl show ?thesis
      by (auto simp: item_step_def contribution_def has_class_def split: if_splits)
  qed
qed

lemma item_step_subject:
  assumes "item_step d acc = Inr acc'" and "ordering_rule d"
  shows "\<exists>s. search_subject (get_text d) = Some s"
proof -
  from assms(2) have na: "\<not> has_attr d ''aria-level''" and c: "has_class ''agendaorder'' d"
    by (simp_all add: ordering_rule_def)
  from c have "has_attr d ''class''" by (rule has_class_attr)
  with assms(1) na c show ?thesis
    by (cases "search_subject (get_text d)")
       (auto simp: item_step_def has_class_def subject_of_def)
qed

lemma items_loop_append:
  "items_loop (xs @ ys) acc =
     (case items_loop xs acc of Inl e \<Rightarrow> Inl e | Inr acc' \<Rightarrow> items_loop ys acc')"
  by (induction xs arbitrary: acc) (auto split: sum.splits)

lemma contribution_shape:
  "contribution d = [] \<or> (\<exists>dedup t. contribution d = [(dedup, t)])"
  by (auto simp: contribution_def split: option.splits)

lemma contribution_cases:
  obtains "contribution d = []" | dedup t where "contribution d = [(dedup, t)]"
  using contribution_shape[of d] by blast

lemma item_step_set:
  assumes "item_step d acc = Inr acc'"
  shows "set acc' = set acc \<union> snd ` set (contribution d)"
proof (cases d rule: contribution_cases)
  case 1
  with item_step_Inr[OF assms] show ?thesis by simp
next
  case (2 dedup t)
  with item_step_Inr[OF assms] show ?thesis by (cases "t \<in> set acc") auto
qed

lemma items_loop_set:
  "items_loop ds acc = Inr its \<Longrightarrow> set its = set acc \<union> snd ` set (contributions ds)"
proof (induction ds arbitrary: acc)
  case Nil
  then show ?case by (simp add: contributions_def)
next
  case (Cons d ds)
  from Cons.prems obtain acc' where s: "item_step d acc = Inr acc'"
    and r: "items_loop ds acc' = Inr its" by (auto split: sum.splits)
  from item_step_set[OF s] Cons.IH[OF r] show ?case
    by (auto simp: contributions_def)
qed

lemma first_seen_snoc:
  "first_seen (cs @ [(dedup, t)]) =
     first_seen cs @ (if \<not> dedup \<or> t \<notin> snd ` set cs then [t] else [])"
proof -
  let ?P = "\<lambda>xs (i, dd, u). \<not> dd \<or> u \<notin> set (map snd (take i xs))"
  have a: "filter (?P (cs @ [(dedup, t)])) (enumerate 0 cs) = filter (?P cs) (enumerate 0 cs)"
    by (rule filter_cong) (auto simp: in_set_enumerate_eq)
  have b: "enumerate 0 (cs @ [(dedup, t)]) = enumerate 0 cs @ [(length cs, dedup, t)]"
    by (simp add: enumerate_append_eq)
  have c: "filter (?P (cs @ [(dedup, t)])) [(length cs, dedup, t)] =
             (if \<not> dedup \<or> t \<notin> snd ` set cs then [(length cs, dedup, t)] else [])"
    by simp
  have "first_seen (cs @ [(dedup, t)]) =
          map (\<lambda>(i, dd, u). u) (filter (?P (cs @ [(dedup, t)])) (enumerate 0 cs)) @
          map (\<lambda>(i, dd, u). u) (filter (?P (cs @ [(dedup, t)])) [(length cs, dedup, t)])"
    unfolding first_seen_def b by (simp only: filter_append map_append)
  also have "\<dots> = first_seen cs @ (if \<not> dedup \<or> t \<notin> snd ` set cs then [t] else [])"
    unfolding a c first_seen_def by simp
  finally show ?thesis .
qed

lemma first_seen_Nil: "first_seen [] = []"
  by (simp add: first_seen_def)

lemma items_loop_first_seen:
  "items_loop ds [] = Inr its \<Longrightarrow> its = first_seen (contributions ds)"
proof (induction ds arbitrary: its rule: rev_induct)
  case Nil
  then show ?case by (simp add: contributions_def first_seen_Nil)
next
  case (snoc d ds)
  from snoc.prems obtain acc where p: "items_loop ds [] = Inr acc"
    and s: "item_step d acc = Inr its"
    by (auto simp: items_loop_append split: sum.splits)
  from snoc.IH[OF p] have acc: "acc = first_seen (contributions ds)" .
  from items_loop_set[OF p] have seen: "set acc = snd ` set (contributions ds)" by simp
  have c: "contributions (ds @ [d]) = contributions ds @ contribution d"
    by (simp add: contributions_def)
  show ?case
  proof (cases d rule: contribution_cases)
    case 1
    with item_step_Inr[OF s] acc c show ?thesis by simp
  next
    case (2 dedup t)
    with item_step_Inr[OF s] acc c seen show ?thesis
      by (auto simp: first_seen_snoc)
  qed
qed


lemma contributions_Cons: "contributions (d # ds) = contribution d @ contributions ds"
  by (simp add: contributions_def)

lemma items_loop_count:
  "items_loop ds acc = Inr its \<Longrightarrow>
   count_list its t =
     count_list acc t + count_list (ordering_subjects ds) t +
     (if t \<notin> set acc \<and> List.find (\<lambda>c. snd c = t) (contributions ds) = Some (True, t)
      then 1 else 0)"
proof (induction ds arbitrary: acc)
  case Nil
  then show ?case by (simp add: contributions_def ordering_subjects_def)
next
  case (Cons d ds)
  from Cons.prems obtain acc' where s: "item_step d acc = Inr acc'"
    and r: "items_loop ds acc' = Inr its" by (auto split: sum.splits)
  note ih = Cons.IH[OF r]
  show ?case
  proof (cases d rule: contribution_cases)
    case 1
    with item_step_Inr[OF s] have "acc' = acc" by simp
    with ih 1 show ?thesis by (simp add: contributions_Cons ordering_subjects_def)
  next
    case (2 dedup u)
    show ?thesis
    proof (cases "dedup \<and> u \<in> set acc")
      case True
      with item_step_Inr[OF s] 2 have "acc' = acc" by simp
      with ih 2 True show ?thesis
        by (auto simp: contributions_Cons ordering_subjects_def)
    next
      case False
      with item_step_Inr[OF s] 2 have "acc' = acc @ [u]" by auto
      with ih 2 False show ?thesis
        by (auto simp: contributions_Cons ordering_subjects_def)
    qed
  qed
qed

lemma items_loop_subseq:
  "items_loop ds acc = Inr its \<Longrightarrow>
   \<exists>new. its = acc @ new \<and> subseq (ordering_subjects ds) new"
proof (induction ds arbitrary: acc)
  case Nil
  then show ?case by (simp add: contributions_def ordering_subjects_def)
next
  case (Cons d ds)
  from Cons.prems obtain acc' where s: "item_step d acc = Inr acc'"
    and r: "items_loop ds acc' = Inr its" by (auto split: sum.splits)
  from Cons.IH[OF r] obtain new where new: "its = acc' @ new"
    and sub: "subseq (ordering_subjects ds) new" by blast
  let ?kept = "map snd (filter (\<lambda>(dedup, t). \<not> dedup \<or> t \<notin> set acc) (contribution d))"
  have k: "subseq (map snd (filter (\<lambda>c. \<not> fst c) (contribution d))) ?kept"
    by (cases d rule: contribution_cases) auto
  have "ordering_subjects (d # ds) =
          map snd (filter (\<lambda>c. \<not> fst c) (contribution d)) @ ordering_subjects ds"
    by (simp add: ordering_subjects_def contributions_Cons)
  with k sub have "subseq (ordering_subjects (d # ds)) (?kept @ new)"
    by (simp add: list_emb_append_mono)
  moreover from item_step_Inr[OF s] new have "its = acc @ (?kept @ new)" by simp
  ultimately show ?case by blast
qed

lemma items_loop_subjects:
  "items_loop ds acc = Inr its \<Longrightarrow> d \<in> set ds \<Longrightarrow> ordering_rule d \<Longrightarrow>
   \<exists>s. search_subject (get_text d) = Some s \<and> s \<in> set its"
proof (induction ds arbitrary: acc)
  case Nil
  then show ?case by simp
next
  case (Cons x ds)
  from Cons.prems(1) obtain acc' where s: "item_step x acc = Inr acc'"
    and r: "items_loop ds acc' = Inr its" by (auto split: sum.splits)
  show ?case
  proof (cases "d = x")
    case True
    with item_step_subject[OF s] Cons.prems(3) obtain u where
      u: "search_subject (get_text d) = Some u" by blast
    with Cons.prems(3) have "contribution d = [(False, u)]"
      by (simp add: contribution_def ordering_rule_def level_rule_def has_attr_def)
    with item_step_set[OF s] True have "u \<in> set acc'" by simp
    with items_loop_set[OF r] u show ?thesis by auto
  next
    case False
    with Cons.prems(2) have "d \<in> set ds" by simp
    from Cons.IH[OF r this Cons.prems(3)] show ?thesis .
  qed
qed

lemma items_loop_levels:
  assumes "items_loop ds acc = Inr its" and "d \<in> set ds" and "level_rule d"
  shows "get_text d \<in> set its"
proof -
  from assms(3) have "contribution d = [(True, get_text d)]" by (simp add: contribution_def)
  with assms(2) have "get_text d \<in> snd ` set (contributions ds)"
    by (force simp: contributions_def)
  with items_loop_set[OF assms(1)] show ?thesis by simp
qed

lemma item_step_level:
  "has_attr d ''aria-level'' \<Longrightarrow>
   item_step d acc =
     Inr (if level_rule d \<and> get_text d \<notin> set acc then acc @ [get_text d] else acc)"
  by (simp add: item_step_def level_rule_def)

lemma process_boarddoc_meeting_fst:
  "post_html E (agenda_url site) (agenda_data mid cid) = Some soup \<Longrightarrow>
   fst (process_boarddoc_meeting E site cid mid log) = agenda_of_soup mid soup"
  by (simp add: process_boarddoc_meeting_def agenda_data_def Let_def)

lemma string_prop_not_str: "\<not> type_is_str (string_prop t)"
proof (induction t rule: string_prop.induct)
  case (1 s)
  show ?case by simp
next
  case (2 n as cs)
  show ?case
  proof (cases cs)
    case Nil
    then show ?thesis by simp
  next
    case (Cons c rest)
    with 2 show ?thesis by (cases rest) simp_all
  qed
qed

lemma agenda_of_soup_Inr:
  assumes "agenda_of_soup mid soup = Inr a"
  shows "agenda_items soup = Inr (items a)"
    and "\<exists>public. files_loop public_file_step
             (find_all soup ''div'' (has_class ''public-file'')) [] = Inr public \<and>
           files_loop legacy_file_step (legacy_links soup) public = Inr (files a)"
    and "description a = PyStr []"
    and "find_first soup ''div'' (has_class ''print-meeting-description'') \<noteq> None"
  using assms
  by (auto simp: agenda_of_soup_def Let_def string_prop_not_str
           split: option.splits sum.splits)


text \<open>
  Claim C3, as amended. When the extractor returns, its item list is built from the \<^verbatim>\<open>div\<close>
  elements in document order. The text of an element whose \<^verbatim>\<open>aria-level\<close> is \<^verbatim>\<open>"1"\<close> is
  recorded only where no earlier element has offered that text. The ordering rule is the
  \<^verbatim>\<open>elif\<close> branch: it reaches an element with \<^verbatim>\<open>agendaorder\<close> in its class list only when the
  element has no \<^verbatim>\<open>aria-level\<close> attribute, and every Subject line it offers is recorded,
  repeated or not. So a text occurs in the list once for each element the ordering rule
  reaches with that subject, and once more exactly when the first element offering it is
  a level-1 element; and the text of every level-1 element is in the list.
\<close>

theorem dual_deduplication:
  assumes "post_html E (agenda_url site) (agenda_data mid cid) = Some soup"
    and "fst (process_boarddoc_meeting E site cid mid log) = Inr a"
  shows "items a = first_seen (contributions (divs soup)) \<and>
         (\<forall>t. count_list (items a) t =
                count_list (ordering_subjects (divs soup)) t +
                (if List.find (\<lambda>c. snd c = t) (contributions (divs soup)) = Some (True, t)
                 then 1 else 0)) \<and>
         (\<forall>d\<in>set (divs soup). level_rule d \<longrightarrow> get_text d \<in> set (items a))"
proof -
  from assms have "agenda_of_soup mid soup = Inr a"
    by (simp add: process_boarddoc_meeting_fst)
  then have "agenda_items soup = Inr (items a)" by (rule agenda_of_soup_Inr)
  then have loop: "items_loop (divs soup) [] = Inr (items a)"
    by (simp add: agenda_items_divs)
  have 1: "items a = first_seen (contributions (divs soup))"
    using loop by (rule items_loop_first_seen)
  have 2: "\<forall>t. count_list (items a) t =
                count_list (ordering_subjects (divs soup)) t +
                (if List.find (\<lambda>c. snd c = t) (contributions (divs soup)) = Some (True, t)
                 then 1 else 0)"
    using items_loop_count[OF loop] by simp
  have 3: "\<forall>d\<in>set (divs soup). level_rule d \<longrightarrow> get_text d \<in> set (items a)"
    using items_loop_levels[OF loop] by blast
  from 1 2 3 show ?thesis by (intro conjI)
qed

text \<open>
  Claim C4, as amended. When the extractor returns, every \<^verbatim>\<open>div\<close> with \<^verbatim>\<open>agendaorder\<close> in its
  class list and without an \<^verbatim>\<open>aria-level\<close> attribute has a Subject line, which is in the item
  list; the Subject lines of these elements appear in the list in document order, each
  occurrence on its own. An element that carries an \<^verbatim>\<open>aria-level\<close> attribute is handled by
  the level rule alone, whatever its class: it offers its text when the level is \<^verbatim>\<open>"1"\<close>
  and nothing otherwise.
\<close>

theorem ordering_rule_coverage:
  assumes "post_html E (agenda_url site) (agenda_data mid cid) = Some soup"
    and "fst (process_boarddoc_meeting E site cid mid log) = Inr a"
  shows "(\<forall>d\<in>set (divs soup). ordering_rule d \<longrightarrow>
            (\<exists>s. search_subject (get_text d) = Some s \<and> s \<in> set (items a))) \<and>
         subseq (ordering_subjects (divs soup)) (items a) \<and>
         (\<forall>d acc. has_attr d ''aria-level'' \<longrightarrow>
            item_step d acc =
              Inr (if level_rule d \<and> get_text d \<notin> set acc then acc @ [get_text d] else acc))"
proof -
  from assms have "agenda_of_soup mid soup = Inr a"
    by (simp add: process_boarddoc_meeting_fst)
  then have "agenda_items soup = Inr (items a)" by (rule agenda_of_soup_Inr)
  then have loop: "items_loop (divs soup) [] = Inr (items a)"
    by (simp add: agenda_items_divs)
  have 1: "\<forall>d\<in>set (divs soup). ordering_rule d \<longrightarrow>
            (\<exists>s. search_subject (get_text d) = Some s \<and> s \<in> set (items a))"
    using items_loop_subjects[OF loop] by blast
  have 2: "subseq (ordering_subjects (divs soup)) (items a)"
    using items_loop_subseq[OF loop] by auto
  have 3: "\<forall>d acc. has_attr d ''aria-level'' \<longrightarrow>
            item_step d acc =
              Inr (if level_rule d \<and> get_text d \<notin> set acc then acc @ [get_text d] else acc)"
    using item_step_level by blast
  from 1 2 3 show ?thesis by (intro conjI)
qed

lemma page_1_posted:
  "post_html site_env (agenda_url ''s'') (agenda_data ''1'' ''A'') = Some page_1"
  by (simp add: site_env_def pages_def agenda_data_def)

lemma page_1_processed:
  "fst (process_boarddoc_meeting site_env ''s'' ''A'' ''1'' []) = Inr agenda_1"
  by (simp add: process_boarddoc_meeting_fst[OF page_1_posted] page_1_agenda)

lemma page_1_subjects: "ordering_subjects (divs page_1) = [''Budget'', ''Budget'']"
  by code_simp

theorem dual_deduplication_witness:
  "post_html site_env (agenda_url ''s'') (agenda_data ''1'' ''A'') = Some page_1 \<and>
   fst (process_boarddoc_meeting site_env ''s'' ''A'' ''1'' []) = Inr agenda_1 \<and>
   items agenda_1 = [''Opening'', ''Budget'', ''Budget''] \<and>
   items agenda_1 = first_seen (contributions (divs page_1)) \<and>
   count_list (items agenda_1) ''Opening'' =
     count_list (ordering_subjects (divs page_1)) ''Opening'' +
     (if List.find (\<lambda>c. snd c = ''Opening'') (contributions (divs page_1)) = Some (True, ''Opening'')
      then 1 else 0)"
proof -
  note th = dual_deduplication[OF page_1_posted page_1_processed]
  have i: "items agenda_1 = [''Opening'', ''Budget'', ''Budget'']"
    by (simp add: agenda_1_def)
  from th have a: "items agenda_1 = first_seen (contributions (divs page_1))" by (rule conjunct1)
  from th have "\<forall>t. count_list (items agenda_1) t =
                count_list (ordering_subjects (divs page_1)) t +
                (if List.find (\<lambda>c. snd c = t) (contributions (divs page_1)) = Some (True, t)
                 then 1 else 0)" by blast
  then have b: "count_list (items agenda_1) ''Opening'' =
     count_list (ordering_subjects (divs page_1)) ''Opening'' +
     (if List.find (\<lambda>c. snd c = ''Opening'') (contributions (divs page_1)) = Some (True, ''Opening'')
      then 1 else 0)" by (rule spec)
  from page_1_posted page_1_processed i a b show ?thesis by (intro conjI)
qed

theorem ordering_rule_coverage_witness:
  "post_html site_env (agenda_url ''s'') (agenda_data ''1'' ''A'') = Some page_1 \<and>
   fst (process_boarddoc_meeting site_env ''s'' ''A'' ''1'' []) = Inr agenda_1 \<and>
   ordering_subjects (divs page_1) = [''Budget'', ''Budget''] \<and>
   items agenda_1 = [''Opening'', ''Budget'', ''Budget''] \<and>
   subseq (ordering_subjects (divs page_1)) (items agenda_1)"
proof -
  note th = ordering_rule_coverage[OF page_1_posted page_1_processed]
  have i: "items agenda_1 = [''Opening'', ''Budget'', ''Budget'']"
    by (simp add: agenda_1_def)
  from th have s: "subseq (ordering_subjects (divs page_1)) (items agenda_1)" by blast
  from page_1_posted page_1_processed page_1_subjects i s show ?thesis by (intro conjI)
qed

lemma page_3_blocks: "count_list (divs page_3) level_one_block = 2"
  by code_simp

lemma page_3_class: "has_class ''agendaorder'' level_one_block"
  by code_simp

lemma page_3_subject: "subject_of level_one_block = Inr ''Budget''"
  by code_simp

lemma page_3_items:
  "map_sum id items (fst (process_boarddoc_meeting site_env ''s'' ''A'' ''3'' []))
     = Inr [''Subject'' @ [newline] @ ''Budget'']"
  by code_simp

text \<open>
  Claim C3 as stated fails on page 3: its two \<^verbatim>\<open>agendaorder\<close> blocks have the Subject line
  \<^verbatim>\<open>Budget\<close>, and \<^verbatim>\<open>aria-level\<close> 1, and the extractor returns one item, their full text,
  recorded once: no Subject line is recorded, and the repeated text is merged.
\<close>

theorem dual_deduplication_counterexample:
  "count_list (divs page_3) level_one_block = 2 \<and>
   has_class ''agendaorder'' level_one_block \<and>
   subject_of level_one_block = Inr ''Budget'' \<and>
   map_sum id items (fst (process_boarddoc_meeting site_env ''s'' ''A'' ''3'' []))
     = Inr [''Subject'' @ [newline] @ ''Budget'']"
  using page_3_blocks page_3_class page_3_subject page_3_items by (intro conjI)

lemma page_4_block: "level_two_block \<in> set (divs page_4)"
  by code_simp

lemma page_4_class: "has_class ''agendaorder'' level_two_block"
  by code_simp

lemma page_4_subject: "subject_of level_two_block = Inr ''Budget''"
  by code_simp

lemma page_4_items:
  "map_sum id items (fst (process_boarddoc_meeting site_env ''s'' ''A'' ''4'' [])) = Inr []"
  by code_simp

text \<open>
  Claim C4 as stated fails on page 4: its \<^verbatim>\<open>agendaorder\<close> block has the Subject line
  \<^verbatim>\<open>Budget\<close>, and an \<^verbatim>\<open>aria-level\<close> attribute, and the extractor returns no item.
\<close>

theorem ordering_rule_coverage_counterexample:
  "level_two_block \<in> set (divs page_4) \<and>
   has_class ''agendaorder'' level_two_block \<and>
   subject_of level_two_block = Inr ''Budget'' \<and>
   map_sum id items (fst (process_boarddoc_meeting site_env ''s'' ''A'' ''4'' [])) = Inr []"
  using page_4_block page_4_class page_4_subject page_4_items by (intro conjI)

subsection \<open>Description and files\<close>

lemma find_append:
  "List.find P (xs @ ys) = (case List.find P xs of None \<Rightarrow> List.find P ys | Some x \<Rightarrow> Some x)"
  by (induction xs) auto

lemma find_tag_walk:
  "List.find is_tag (map snd (walk anc c)) = (if is_tag c then Some c else None)"
  by (cases c) simp_all

lemma find_tag_children:
  "List.find is_tag (map snd (concat (map (walk anc) cs))) = List.find is_tag cs"
  by (induction cs) (auto simp: find_append find_tag_walk)

lemma findChild_contents: "findChild t = List.find is_tag (contents t)"
  by (cases t) (simp_all add: findChild_def find_tag_children)

lemma legacy_file_step_Inr:
  "legacy_file_step d fs = Inr fs' \<Longrightarrow> \<exists>f. legacy_triple d = Some f \<and> fs' = fs @ [f]"
  by (auto simp: legacy_file_step_def legacy_triple_def parent_subject_def subject_of_def
        findChild_contents Let_def split: sum.splits option.splits)

lemma legacy_loop_Inr:
  "files_loop legacy_file_step ds fs = Inr fs' \<Longrightarrow>
   \<exists>new. fs' = fs @ new \<and> map legacy_triple ds = map Some new"
proof (induction ds arbitrary: fs)
  case Nil
  then show ?case by simp
next
  case (Cons d ds)
  from Cons.prems obtain fs1 where s: "legacy_file_step d fs = Inr fs1"
    and r: "files_loop legacy_file_step ds fs1 = Inr fs'" by (auto split: sum.splits)
  from legacy_file_step_Inr[OF s] obtain f where f: "legacy_triple d = Some f"
    and fs1: "fs1 = fs @ [f]" by blast
  from Cons.IH[OF r] obtain new where "fs' = fs1 @ new" "map legacy_triple ds = map Some new"
    by blast
  with f fs1 have "fs' = fs @ (f # new) \<and> map legacy_triple (d # ds) = map Some (f # new)"
    by simp
  then show ?case by blast
qed

lemma files_loop_fails:
  "d \<in> set ds \<Longrightarrow> (\<And>fs. \<exists>e. step d fs = Inl e) \<Longrightarrow> \<exists>e. files_loop step ds fs = Inl e"
proof (induction ds arbitrary: fs)
  case Nil
  then show ?case by simp
next
  case (Cons x ds)
  show ?case
  proof (cases "step x fs")
    case (Inl e)
    then show ?thesis by simp
  next
    case (Inr fs1)
    have "d \<noteq> x" using Cons.prems(2)[of fs] Inr by auto
    with Cons.prems(1) have "d \<in> set ds" by simp
    from Cons.IH[OF this Cons.prems(2)] Inr show ?thesis by simp
  qed
qed

lemma legacy_file_step_no_child:
  "List.find is_tag (contents (snd d)) = None \<Longrightarrow>
   legacy_file_step d fs =
     (case parent_subject (fst d) of Inl e \<Rightarrow> Inl e | Inr item \<Rightarrow> Inl AttributeError)"
  by (simp add: legacy_file_step_def findChild_contents split: sum.splits)

lemma legacy_file_step_no_alt:
  "List.find is_tag (contents (snd d)) = Some child \<Longrightarrow> attr child ''alt'' = None \<Longrightarrow>
   parent_subject (fst d) = Inr item \<Longrightarrow> attr (snd d) ''href'' = Some href \<Longrightarrow>
   legacy_file_step d fs = Inr (fs @ [(item, [], href)])"
  by (simp add: legacy_file_step_def findChild_contents)


text \<open>
  Claim C8. When the extractor returns, the file list is the files of the first pass
  followed by one triple for every hyperlink whose \<^verbatim>\<open>href\<close> contains \<^verbatim>\<open>legacy-content\<close>, in
  document order: the label is the Subject line of the nearest enclosing \<^verbatim>\<open>div\<close> of class
  \<^verbatim>\<open>agendaorder\<close>, the display name is the \<^verbatim>\<open>alt\<close> text of the first child element of the
  hyperlink, or the empty string when that element has no \<^verbatim>\<open>alt\<close>, and the target is the
  \<^verbatim>\<open>href\<close>.
\<close>

theorem legacy_file_naming:
  assumes "post_html E (agenda_url site) (agenda_data mid cid) = Some soup"
    and "fst (process_boarddoc_meeting E site cid mid log) = Inr a"
  shows "\<exists>public legacy.
           files_loop public_file_step
             (find_all soup ''div'' (has_class ''public-file'')) [] = Inr public \<and>
           files a = public @ legacy \<and>
           map legacy_triple (legacy_links soup) = map Some legacy"
proof -
  from assms have "agenda_of_soup mid soup = Inr a"
    by (simp add: process_boarddoc_meeting_fst)
  from agenda_of_soup_Inr(2)[OF this] obtain public where
    p: "files_loop public_file_step
             (find_all soup ''div'' (has_class ''public-file'')) [] = Inr public"
    and l: "files_loop legacy_file_step (legacy_links soup) public = Inr (files a)"
    by blast
  from legacy_loop_Inr[OF l] p show ?thesis by blast
qed

text \<open>
  Claim C10. If a hyperlink of the second pass has no child element, the extractor fails:
  at that hyperlink the loop raises \<^verbatim>\<open>AttributeError\<close> as soon as the label has been found
  (and the error of the label otherwise), so no file with an empty display name is
  recorded for it. The empty display name is what a hyperlink gets whose first child
  element is there and has no \<^verbatim>\<open>alt\<close> attribute.
\<close>

theorem legacy_link_without_child:
  assumes "post_html E (agenda_url site) (agenda_data mid cid) = Some soup"
    and "d \<in> set (legacy_links soup)"
    and "List.find is_tag (contents (snd d)) = None"
  shows "(\<exists>e. fst (process_boarddoc_meeting E site cid mid log) = Inl e) \<and>
         (\<forall>fs. legacy_file_step d fs =
            (case parent_subject (fst d) of Inl e \<Rightarrow> Inl e | Inr item \<Rightarrow> Inl AttributeError)) \<and>
         (\<forall>d' child item href fs.
            List.find is_tag (contents (snd d')) = Some child \<and> attr child ''alt'' = None \<and>
            parent_subject (fst d') = Inr item \<and> attr (snd d') ''href'' = Some href \<longrightarrow>
            legacy_file_step d' fs = Inr (fs @ [(item, [], href)]))"
proof -
  have step: "\<forall>fs. legacy_file_step d fs =
            (case parent_subject (fst d) of Inl e \<Rightarrow> Inl e | Inr item \<Rightarrow> Inl AttributeError)"
    using legacy_file_step_no_child[OF assms(3)] by blast
  then have bad: "\<And>fs. \<exists>e. legacy_file_step d fs = Inl e"
    by (cases "parent_subject (fst d)") auto
  have loop: "\<And>fs. \<exists>e. files_loop legacy_file_step (legacy_links soup) fs = Inl e"
    by (rule files_loop_fails[where step = legacy_file_step and d = d, OF assms(2) bad])
  have "\<exists>e. agenda_of_soup mid soup = Inl e"
  proof (cases "agenda_of_soup mid soup")
    case (Inl e)
    then show ?thesis by blast
  next
    case (Inr a)
    from agenda_of_soup_Inr(2)[OF Inr] loop show ?thesis by (metis sum.distinct(1))
  qed
  then have fail: "\<exists>e. fst (process_boarddoc_meeting E site cid mid log) = Inl e"
    using assms(1) by (simp add: process_boarddoc_meeting_fst)
  have alt: "\<forall>d' child item href fs.
            List.find is_tag (contents (snd d')) = Some child \<and> attr child ''alt'' = None \<and>
            parent_subject (fst d') = Inr item \<and> attr (snd d') ''href'' = Some href \<longrightarrow>
            legacy_file_step d' fs = Inr (fs @ [(item, [], href)])"
    using legacy_file_step_no_alt by blast
  from fail step alt show ?thesis by (intro conjI)
qed

lemma agenda_of_soup_no_description:
  "find_first soup ''div'' (has_class ''print-meeting-description'') = None \<Longrightarrow>
   agenda_of_soup mid soup = Inl AttributeError"
  by (simp add: agenda_of_soup_def split: option.splits)

text \<open>
  Claim C5, as amended. When the description element is missing, the extractor fails with
  \<^verbatim>\<open>AttributeError\<close>. When it is there and its \<^verbatim>\<open>.string\<close> is \<^verbatim>\<open>None\<close> (no text, or more than one
  child), the description of a returned agenda is the empty string, and the extractor
  does return whenever the name and date elements are there and the item and file loops
  succeed.
\<close>

theorem description_fallback:
  assumes "post_html E (agenda_url site) (agenda_data mid cid) = Some soup"
  shows "(find_first soup ''div'' (has_class ''print-meeting-description'') = None \<longrightarrow>
            fst (process_boarddoc_meeting E site cid mid log) = Inl AttributeError) \<and>
         (\<forall>d a. find_first soup ''div'' (has_class ''print-meeting-description'') = Some d \<and>
                string_prop d = PyNone \<and>
                fst (process_boarddoc_meeting E site cid mid log) = Inr a \<longrightarrow>
                description a = PyStr []) \<and>
         (\<forall>n dt d its public fs.
            find_first soup ''div'' (has_class ''print-meeting-name'') = Some n \<and>
            find_first soup ''div'' (has_class ''print-meeting-date'') = Some dt \<and>
            find_first soup ''div'' (has_class ''print-meeting-description'') = Some d \<and>
            string_prop d = PyNone \<and>
            agenda_items soup = Inr its \<and>
            files_loop public_file_step
              (find_all soup ''div'' (has_class ''public-file'')) [] = Inr public \<and>
            files_loop legacy_file_step (legacy_links soup) public = Inr fs \<longrightarrow>
            (\<exists>a. fst (process_boarddoc_meeting E site cid mid log) = Inr a \<and>
                 description a = PyStr []))"
proof -
  note run = process_boarddoc_meeting_fst[OF assms]
  have 1: "find_first soup ''div'' (has_class ''print-meeting-description'') = None \<longrightarrow>
            fst (process_boarddoc_meeting E site cid mid log) = Inl AttributeError"
    by (simp add: run agenda_of_soup_no_description)
  have 2: "\<forall>d a. find_first soup ''div'' (has_class ''print-meeting-description'') = Some d \<and>
                string_prop d = PyNone \<and>
                fst (process_boarddoc_meeting E site cid mid log) = Inr a \<longrightarrow>
                description a = PyStr []"
    using agenda_of_soup_Inr(3)[of mid soup] by (auto simp: run)
  have 3: "\<forall>n dt d its public fs.
            find_first soup ''div'' (has_class ''print-meeting-name'') = Some n \<and>
            find_first soup ''div'' (has_class ''print-meeting-date'') = Some dt \<and>
            find_first soup ''div'' (has_class ''print-meeting-description'') = Some d \<and>
            string_prop d = PyNone \<and>
            agenda_items soup = Inr its \<and>
            files_loop public_file_step
              (find_all soup ''div'' (has_class ''public-file'')) [] = Inr public \<and>
            files_loop legacy_file_step (legacy_links soup) public = Inr fs \<longrightarrow>
            (\<exists>a. fst (process_boarddoc_meeting E site cid mid log) = Inr a \<and>
                 description a = PyStr [])"
    by (auto simp: run agenda_of_soup_def)
  from 1 2 3 show ?thesis by (intro conjI)
qed

lemma page_1_legacy:
  "map legacy_triple (legacy_links page_1) =
     [Some (''Budget'', ''Minutes'', ''/legacy-content/m.pdf''),
      Some (''Budget'', [], ''/legacy-content/n.pdf'')]"
  by code_simp

theorem legacy_file_naming_witness:
  "post_html site_env (agenda_url ''s'') (agenda_data ''1'' ''A'') = Some page_1 \<and>
   fst (process_boarddoc_meeting site_env ''s'' ''A'' ''1'' []) = Inr agenda_1 \<and>
   map legacy_triple (legacy_links page_1) =
     [Some (''Budget'', ''Minutes'', ''/legacy-content/m.pdf''),
      Some (''Budget'', [], ''/legacy-content/n.pdf'')] \<and>
   (\<exists>public legacy.
      files_loop public_file_step
        (find_all page_1 ''div'' (has_class ''public-file'')) [] = Inr public \<and>
      files agenda_1 = public @ legacy \<and>
      map legacy_triple (legacy_links page_1) = map Some legacy)"
  using page_1_posted page_1_processed page_1_legacy
    legacy_file_naming[OF page_1_posted page_1_processed]
  by (intro conjI)

lemma page_7_posted:
  "post_html site_env (agenda_url ''s'') (agenda_data ''7'' ''C'') = Some page_7"
  by (simp add: site_env_def pages_def agenda_data_def)

lemma page_7_link: "hd (legacy_links page_7) \<in> set (legacy_links page_7)"
  by code_simp

lemma page_7_no_child:
  "List.find is_tag (contents (snd (hd (legacy_links page_7)))) = None"
  by code_simp

lemma page_7_processed:
  "fst (process_boarddoc_meeting site_env ''s'' ''C'' ''7'' []) = Inl AttributeError"
  by (simp add: process_boarddoc_meeting_fst[OF page_7_posted] page_7_agenda)

theorem legacy_link_without_child_witness:
  "post_html site_env (agenda_url ''s'') (agenda_data ''7'' ''C'') = Some page_7 \<and>
   hd (legacy_links page_7) \<in> set (legacy_links page_7) \<and>
   List.find is_tag (contents (snd (hd (legacy_links page_7)))) = None \<and>
   fst (process_boarddoc_meeting site_env ''s'' ''C'' ''7'' []) = Inl AttributeError \<and>
   (\<exists>e. fst (process_boarddoc_meeting site_env ''s'' ''C'' ''7'' []) = Inl e)"
proof -
  from legacy_link_without_child[OF page_7_posted page_7_link page_7_no_child]
  have "\<exists>e. fst (process_boarddoc_meeting site_env ''s'' ''C'' ''7'' []) = Inl e"
    by (rule conjunct1)
  with page_7_posted page_7_link page_7_no_child page_7_processed show ?thesis
    by (intro conjI)
qed

lemma page_2_posted:
  "post_html site_env (agenda_url ''s'') (agenda_data ''2'' ''B'') = Some page_2"
  by (simp add: site_env_def pages_def agenda_data_def)

lemma page_2_processed:
  "fst (process_boarddoc_meeting site_env ''s'' ''B'' ''2'' []) = Inr agenda_2"
  by (simp add: process_boarddoc_meeting_fst[OF page_2_posted] page_2_agenda)

lemma page_2_description:
  "find_first page_2 ''div'' (has_class ''print-meeting-description'') = Some description_2"
  by code_simp

lemma description_2_string: "string_prop description_2 = PyNone"
  by code_simp

theorem description_fallback_witness:
  "post_html site_env (agenda_url ''s'') (agenda_data ''2'' ''B'') = Some page_2 \<and>
   find_first page_2 ''div'' (has_class ''print-meeting-description'') = Some description_2 \<and>
   string_prop description_2 = PyNone \<and>
   fst (process_boarddoc_meeting site_env ''s'' ''B'' ''2'' []) = Inr agenda_2 \<and>
   description agenda_2 = PyStr []"
proof -
  from description_fallback[OF page_2_posted, of "[]"]
  have "\<forall>d a. find_first page_2 ''div'' (has_class ''print-meeting-description'') = Some d \<and>
                string_prop d = PyNone \<and>
                fst (process_boarddoc_meeting site_env ''s'' ''B'' ''2'' []) = Inr a \<longrightarrow>
                description a = PyStr []"
    by blast
  with page_2_description description_2_string page_2_processed
  have "description agenda_2 = PyStr []" by blast
  with page_2_posted page_2_description description_2_string page_2_processed
  show ?thesis by (intro conjI)
qed

lemma page_5_description:
  "find_first page_5 ''div'' (has_class ''print-meeting-description'') = None"
  by code_simp

lemma page_5_processed:
  "fst (process_boarddoc_meeting site_env ''s'' ''A'' ''5'' []) = Inl AttributeError"
  by code_simp

text \<open>
  Claim C5 as stated fails on page 5, which has no description element: the extractor
  raises instead of storing an empty description.
\<close>

theorem description_fallback_counterexample:
  "find_first page_5 ''div'' (has_class ''print-meeting-description'') = None \<and>
   fst (process_boarddoc_meeting site_env ''s'' ''A'' ''5'' []) = Inl AttributeError"
  using page_5_description page_5_processed by (intro conjI)

text \<open>
  The test \<^verbatim>\<open>type(...) is str\<close> never holds for a \<^verbatim>\<open>NavigableString\<close>, so the description of a
  returned agenda is empty also when the element holds plain text, as on page 1.
\<close>

lemma description_always_empty:
  "fst (process_boarddoc_meeting E site cid mid log) = Inr a \<Longrightarrow> description a = PyStr []"
  by (cases "post_html E (agenda_url site) (agenda_data mid cid)")
     (auto simp: process_boarddoc_meeting_def agenda_data_def Let_def
           dest: agenda_of_soup_Inr(3))

lemma page_1_description_lost:
  "find_first page_1 ''div'' (has_class ''print-meeting-description'') = Some (heading ! 2) \<and>
   string_prop (heading ! 2) = NavigableString ''Monthly session'' \<and>
   map_sum id description (fst (process_boarddoc_meeting site_env ''s'' ''A'' ''1'' []))
     = Inr (PyStr [])"
  by code_simp

end
